theory Spec2Isabelle
  imports Main "HOL-Library.Word"
begin

section \<open>The gradient accumulation node of the eager autograd engine\<close>

text \<open>
  The development embeds \<^verbatim>\<open>paddle/fluid/eager/accumulation/accumulation_node.h\<close>,
  the class \<^verbatim>\<open>egr::GradNodeAccumulation\<close>. The header gives the fields of the
  class, its constructor and the member functions \<^verbatim>\<open>name\<close>,
  \<^verbatim>\<open>ClearTensorWrappers\<close>, \<^verbatim>\<open>ReduceHooksRegistered\<close>, \<^verbatim>\<open>Copy\<close> and
  \<^verbatim>\<open>SetFakeEmpty\<close> with their bodies. It only declares \<^verbatim>\<open>operator()\<close>,
  \<^verbatim>\<open>RegisterReduceHook\<close> and \<^verbatim>\<open>ApplyReduceHooks\<close>, and it uses the types
  \<^verbatim>\<open>paddle::Tensor\<close>, \<^verbatim>\<open>AutogradMeta\<close>, \<^verbatim>\<open>GradNodeBase\<close> and
  \<^verbatim>\<open>VoidHook\<close> of other headers. Every definition that stands for one of those
  says so in its comment.
\<close>

subsection \<open>Tensors and the elementwise addition kernel\<close>

text \<open>
  Modelled from the spec: \<^verbatim>\<open>paddle::Tensor\<close> is declared outside the header. A
  gradient value is either the empty placeholder (the "empty result" of the
  specification) or a dense tensor: an element type tag, a shape and the elements in
  row-major order. The elements are of any type with an addition; rounding of
  floating-point numbers is not part of the model.
\<close>

datatype DataType = FLOAT16 | FLOAT32 | FLOAT64 | INT32 | INT64

datatype 'a Tensor = EmptyTensor | DenseTensor DataType "nat list" "'a list"

text \<open>
  Modelled from the spec: the error taxonomy of its section 7 (the exception types are
  not in the header). A callable that raises raises a \<open>HookFailure\<close>.
\<close>

datatype error = ShapeMismatch | TypeMismatch | InvalidArity | HookFailure string

text \<open>
  Modelled from the spec: "elementwise addition broadcasting per normal tensor
  semantics". Shapes are aligned at their last axis; the shorter one is padded with
  axes of extent 1 in front; two extents agree when they are equal or one of them is 1,
  and the result has the extent that is not 1.
\<close>

definition pad_shape :: "nat \<Rightarrow> nat list \<Rightarrow> nat list" where
  "pad_shape r s = replicate (r - length s) 1 @ s"

abbreviation agree :: "nat list \<Rightarrow> nat list \<Rightarrow> bool" where
  "agree ms ns \<equiv> list_all2 (\<lambda>m n. m = n \<or> m = 1 \<or> n = 1) ms ns"

definition merge_shapes :: "nat list \<Rightarrow> nat list \<Rightarrow> nat list" where
  "merge_shapes s t =
     (let r = max (length s) (length t)
      in map2 (\<lambda>m n. if m = 1 then n else m) (pad_shape r s) (pad_shape r t))"

definition broadcast_shapes :: "nat list \<Rightarrow> nat list \<Rightarrow> nat list option" where
  "broadcast_shapes s t =
     (let r = max (length s) (length t)
      in if agree (pad_shape r s) (pad_shape r t)
         then Some (merge_shapes s t)
         else None)"

text \<open>
  Modelled from the spec: broadcasting the elements.
  \<open>expand ms ns xs\<close> lays the row-major elements \<open>xs\<close> of shape \<open>ms\<close> out in the
  shape \<open>ns\<close> of the same rank: an axis of equal extent is traversed block by
  block, an axis of extent 1 is repeated.
\<close>

fun expand :: "nat list \<Rightarrow> nat list \<Rightarrow> 'a list \<Rightarrow> 'a list" where
  "expand (m # ms) (n # ns) xs =
     (if m = n
      then concat (map (\<lambda>i. expand ms ns (take (prod_list ms) (drop (i * prod_list ms) xs)))
                       [0..<m])
      else concat (replicate n (expand ms ns xs)))"
| "expand _ _ xs = xs"

definition broadcast_to :: "nat list \<Rightarrow> nat list \<Rightarrow> 'a list \<Rightarrow> 'a list" where
  "broadcast_to s t xs = expand (pad_shape (length t) s) t xs"

text \<open>
  Modelled from the spec: the addition kernel, which the header does not contain
  ("combining gradients of incompatible shapes/types is a fatal
  \<open>ShapeMismatch\<close>/\<open>TypeMismatch\<close> error ..., not silently coerced").
  Operands of different element types are a \<open>TypeMismatch\<close>, shapes that
  do not broadcast a \<open>ShapeMismatch\<close>; nothing is coerced. The specification does not
  say what adding the empty placeholder means; the placeholder has no element type, and
  the kernel rejects it as a \<open>TypeMismatch\<close>. No theorem below depends on that choice.
\<close>

fun tensor_add :: "'a::plus Tensor \<Rightarrow> 'a Tensor \<Rightarrow> error + 'a Tensor" where
  "tensor_add (DenseTensor d1 s1 x1) (DenseTensor d2 s2 x2) =
     (if d1 \<noteq> d2 then Inl TypeMismatch
      else case broadcast_shapes s1 s2 of
             None \<Rightarrow> Inl ShapeMismatch
           | Some s \<Rightarrow>
               Inr (DenseTensor d1 s (map2 (+) (broadcast_to s1 s x1) (broadcast_to s2 s x2))))"
| "tensor_add _ _ = Inl TypeMismatch"

text \<open>
  Modelled from the spec (step 2 of the compute contract): no value gives the empty
  result, one value is returned as it is, more values are added from left to right.
\<close>

fun add_all :: "'a::plus Tensor \<Rightarrow> 'a Tensor list \<Rightarrow> error + 'a Tensor" where
  "add_all acc [] = Inr acc"
| "add_all acc (t # ts) =
     (case tensor_add acc t of Inl e \<Rightarrow> Inl e | Inr acc' \<Rightarrow> add_all acc' ts)"

fun accumulate :: "'a::plus Tensor list \<Rightarrow> error + 'a Tensor" where
  "accumulate [] = Inr EmptyTensor"
| "accumulate (t # ts) = add_all t ts"

subsection \<open>Hooks\<close>

text \<open>
  Modelled from the spec: \<^verbatim>\<open>VoidHook\<close> is declared in \<^verbatim>\<open>hooks.h\<close>. A reduce hook
  takes the final gradient, returns nothing and acts on the world outside the node
  (type \<open>'w\<close>); it may raise. The retain-grad transform
  (\<^verbatim>\<open>std::function<paddle::Tensor(const paddle::Tensor&)>\<close> in the header) returns
  a gradient and may act on the world and raise as well. What a callable did to the
  world before it raised stays done, so the world is returned beside the error.
\<close>

type_synonym ('a, 'w) VoidHook = "'a Tensor \<Rightarrow> 'w \<Rightarrow> (error + unit) \<times> 'w"

type_synonym ('a, 'w) RetainHook = "'a Tensor \<Rightarrow> 'w \<Rightarrow> (error + 'a Tensor) \<times> 'w"

subsection \<open>The node\<close>

text \<open>
  \<^verbatim>\<open>std::weak_ptr<paddle::Tensor>\<close>: never set, bound to a gradient that has been
  destroyed since, or bound to a live gradient (named by its address).
\<close>

datatype weak_ptr = WeakUnset | WeakExpired | WeakLive nat


text \<open>
  Modelled from the spec: \<^verbatim>\<open>AutogradMeta\<close> is declared in \<^verbatim>\<open>autograd_meta.h\<close>;
  the constructor only calls its \<^verbatim>\<open>WeakGrad()\<close>, a weak reference to the leaf's
  gradient storage.
\<close>

record AutogradMeta =
  leaf_grad :: nat

definition WeakGrad :: "AutogradMeta \<Rightarrow> weak_ptr" where
  "WeakGrad meta = WeakLive (leaf_grad meta)"

text \<open>
  Modelled from the spec: \<^verbatim>\<open>GradNodeBase\<close> is declared in \<^verbatim>\<open>grad_node_info.h\<close>.
  The constructor \<^verbatim>\<open>GradNodeBase(1, 1)\<close> fixes the numbers of input and output
  slots (the arity), \<^verbatim>\<open>SetForwardTrace\<close> stores the captured call stack, and
  \<^verbatim>\<open>SetDefaultGradInOutMeta\<close> installs the default slot metadata.
\<close>

record GradNodeBase =
  bwd_in_slot_num :: nat
  bwd_out_slot_num :: nat
  forward_trace :: string
  default_grad_in_out_meta :: bool

definition GradNodeBase_init :: "nat \<Rightarrow> nat \<Rightarrow> GradNodeBase" where
  "GradNodeBase_init bwd_in bwd_out =
     \<lparr>bwd_in_slot_num = bwd_in, bwd_out_slot_num = bwd_out, forward_trace = [],
      default_grad_in_out_meta = False\<rparr>"

text \<open>
  The private fields of the class (lines 76 to 81 of the header), written without the
  trailing underscore of the C++ names.
\<close>

record ('a, 'w) GradNodeAccumulation = GradNodeBase +
  is_fake_empty :: bool
  weak_grad :: weak_ptr
  reduce_hooks :: "('a, 'w) VoidHook list"
  retain_grad_hook :: "('a, 'w) RetainHook option"

text \<open>
  Modelled from the spec: \<^verbatim>\<open>SetForwardTrace\<close> and \<^verbatim>\<open>SetDefaultGradInOutMeta\<close>
  are member functions of \<^verbatim>\<open>GradNodeBase\<close>, not in the header. The first stores
  the debug trace ("purely observational"), the second the default slot metadata;
  neither touches the numbers of slots.
\<close>

definition SetForwardTrace ::
  "string \<Rightarrow> ('a, 'w) GradNodeAccumulation \<Rightarrow> ('a, 'w) GradNodeAccumulation" where
  "SetForwardTrace trace n = n\<lparr>forward_trace := trace\<rparr>"

definition SetDefaultGradInOutMeta ::
  "('a, 'w) GradNodeAccumulation \<Rightarrow> ('a, 'w) GradNodeAccumulation" where
  "SetDefaultGradInOutMeta n = n\<lparr>default_grad_in_out_meta := True\<rparr>"

text \<open>
  The constructor (lines 29 to 40). \<open>meta\<close> is \<open>None\<close> for a null pointer. The
  global flag \<^verbatim>\<open>FLAGS_call_stack_level\<close> (an int32) and the Python stack of the
  controller are read from the environment, so they are arguments here. The field
  initialisers of lines 78 to 81 give the other fields.
\<close>

definition GradNodeAccumulation_init ::
  "AutogradMeta option \<Rightarrow> 32 word \<Rightarrow> string \<Rightarrow> ('a, 'w) GradNodeAccumulation" where
  "GradNodeAccumulation_init meta FLAGS_call_stack_level python_stack =
     (let n0 = GradNodeBase.extend (GradNodeBase_init 1 1)
                 (GradNodeAccumulation.fields False WeakUnset [] None);
          n1 = (case meta of Some m \<Rightarrow> n0\<lparr>weak_grad := WeakGrad m\<rparr> | None \<Rightarrow> n0);
          n2 = (if FLAGS_call_stack_level = 3 then SetForwardTrace python_stack n1 else n1)
      in SetDefaultGradInOutMeta n2)"

text \<open>Line 54: \<^verbatim>\<open>ClearTensorWrappers\<close> only logs.\<close>

definition ClearTensorWrappers ::
  "('a, 'w) GradNodeAccumulation \<Rightarrow> ('a, 'w) GradNodeAccumulation" where
  "ClearTensorWrappers n = n"

text \<open>Line 56.\<close>

definition name :: "('a, 'w) GradNodeAccumulation \<Rightarrow> string" where
  "name n = ''GradNodeAccumulation''"

text \<open>Line 66.\<close>

definition ReduceHooksRegistered :: "('a, 'w) GradNodeAccumulation \<Rightarrow> bool" where
  "ReduceHooksRegistered n = (length (reduce_hooks n) \<noteq> 0)"

text \<open>
  Lines 69 to 72: \<^verbatim>\<open>Copy\<close> constructs a new node from a null metadata pointer and
  reads nothing of the node it is called on.
\<close>

definition Copy ::
  "('a, 'w) GradNodeAccumulation \<Rightarrow> 32 word \<Rightarrow> string \<Rightarrow> ('a, 'w) GradNodeAccumulation" where
  "Copy n FLAGS_call_stack_level python_stack =
     GradNodeAccumulation_init None FLAGS_call_stack_level python_stack"

text \<open>Line 74.\<close>

definition SetFakeEmpty ::
  "('a, 'w) GradNodeAccumulation \<Rightarrow> bool \<Rightarrow> ('a, 'w) GradNodeAccumulation" where
  "SetFakeEmpty n flag = n\<lparr>is_fake_empty := flag\<rparr>"

text \<open>
  Modelled from the spec: the arity of a node, its numbers of input and output slots
  (the accessors of \<^verbatim>\<open>GradNodeBase\<close> are not in the header).
\<close>

definition arity :: "('a, 'w) GradNodeAccumulation \<Rightarrow> nat \<times> nat" where
  "arity n = (bwd_in_slot_num n, bwd_out_slot_num n)"

subsection \<open>The member functions the header only declares\<close>

text \<open>
  Modelled from the spec: the body of \<^verbatim>\<open>RegisterReduceHook\<close> (line 61) is not in
  the header. It "appends a hook" and "never rejects a hook".
\<close>

definition RegisterReduceHook ::
  "('a, 'w) GradNodeAccumulation \<Rightarrow> ('a, 'w) VoidHook \<Rightarrow> ('a, 'w) GradNodeAccumulation" where
  "RegisterReduceHook n hook = n\<lparr>reduce_hooks := reduce_hooks n @ [hook]\<rparr>"

text \<open>
  Modelled from the spec: the body of \<^verbatim>\<open>ApplyReduceHooks\<close> (line 67) is not in the
  header. Every registered hook is invoked in registration order with the final
  gradient; the first hook that raises ends the traversal (fail-fast). The header
  declares the function without an argument; the gradient the hooks are passed is
  made explicit here.
\<close>

fun run_reduce_hooks ::
  "('a, 'w) VoidHook list \<Rightarrow> 'a Tensor \<Rightarrow> 'w \<Rightarrow> (error + unit) \<times> 'w" where
  "run_reduce_hooks [] grad w = (Inr (), w)"
| "run_reduce_hooks (hook # hooks) grad w =
     (case hook grad w of
        (Inl e, w') \<Rightarrow> (Inl e, w')
      | (Inr u, w') \<Rightarrow> run_reduce_hooks hooks grad w')"

definition ApplyReduceHooks ::
  "('a, 'w) GradNodeAccumulation \<Rightarrow> 'a Tensor \<Rightarrow> 'w \<Rightarrow> (error + unit) \<times> 'w" where
  "ApplyReduceHooks n grad w = run_reduce_hooks (reduce_hooks n) grad w"

text \<open>
  Modelled from the spec: step 3 of the compute contract, part of the body of
  \<^verbatim>\<open>operator()\<close>: the retain-grad transform, when one is registered, gives the
  final value.
\<close>

definition apply_retain_grad_hook ::
  "('a, 'w) GradNodeAccumulation \<Rightarrow> 'a Tensor \<Rightarrow> 'w \<Rightarrow> (error + 'a Tensor) \<times> 'w" where
  "apply_retain_grad_hook n grad w =
     (case retain_grad_hook n of None \<Rightarrow> (Inr grad, w) | Some f \<Rightarrow> f grad w)"

text \<open>
  Modelled from the spec: the body of \<^verbatim>\<open>operator()\<close> (lines 47 to 52) is not in the
  header. The five steps of the compute contract of the specification, in their order:
  \<^enum> a fake-empty node skips steps 2 to 4 and returns the empty result in its one
    output slot;
  \<^enum> the gradients of the one input slot are accumulated; another number of slots is
    an \<open>InvalidArity\<close>, gradients that do not combine a \<open>ShapeMismatch\<close> or
    \<open>TypeMismatch\<close>;
  \<^enum> the retain-grad transform, if any, gives the final value;
  \<^enum> the reduce hooks are invoked on the final value;
  \<^enum> the final value is returned as the one output slot.
  An error ends the invocation at once. The five steps read neither
  \<open>create_graph\<close> nor \<open>is_new_grad\<close> nor the leaf reference: the value returned
  and what the callables do are the same for all of them (recording the addition for a
  later backward pass is bookkeeping outside this model). The node is not changed
  ("the node itself is otherwise stateless across invocations"). What an invocation
  does to the leaf's gradient slot, where \<open>is_new_grad\<close> and the reference matter,
  is \<open>operator_call_leaf\<close> below.
\<close>

definition operator_call ::
  "('a::plus, 'w) GradNodeAccumulation \<Rightarrow> 'a Tensor list list \<Rightarrow> bool \<Rightarrow> bool \<Rightarrow> 'w
     \<Rightarrow> (error + 'a Tensor list list) \<times> 'w" where
  "operator_call n grads create_graph is_new_grad w =
     (if is_fake_empty n then (Inr [[EmptyTensor]], w)
      else case grads of
        [slot] \<Rightarrow>
          (case accumulate slot of
             Inl e \<Rightarrow> (Inl e, w)
           | Inr acc \<Rightarrow>
               (case apply_retain_grad_hook n acc w of
                  (Inl e, w1) \<Rightarrow> (Inl e, w1)
                | (Inr final, w1) \<Rightarrow>
                    (case ApplyReduceHooks n final w1 of
                       (Inl e, w2) \<Rightarrow> (Inl e, w2)
                     | (Inr u, w2) \<Rightarrow> (Inr [[final]], w2))))
      | _ \<Rightarrow> (Inl InvalidArity, w))"

subsection \<open>The leaf's gradient slot\<close>

text \<open>
  Modelled from the spec: the leaf tensor's gradient slot, "a weakly-referenced
  storage location the node may consult/update; owned elsewhere" (section 2). The
  slots are a store outside the node, from addresses to gradients (the placeholder
  where nothing is stored). \<open>lock\<close> resolves a reference: a live one gives the
  address of its slot, an unset or expired one gives nothing.
\<close>

type_synonym 'a leaf_grads = "nat \<Rightarrow> 'a Tensor"

fun lock :: "weak_ptr \<Rightarrow> nat option" where
  "lock (WeakLive a) = Some a"
| "lock _ = None"

text \<open>
  Modelled from the spec: combining with "a previously stored partial result"
  (section 5). Nothing stored, or nothing new, leaves the other value; otherwise the
  two are added. Section 7 names no error for a stored value that does not combine
  with the new one; there the new value starts afresh. No theorem below depends on
  that choice.
\<close>

fun combine_partial :: "'a::plus Tensor \<Rightarrow> 'a Tensor \<Rightarrow> 'a Tensor" where
  "combine_partial EmptyTensor g = g"
| "combine_partial stored EmptyTensor = stored"
| "combine_partial stored g = (case tensor_add stored g of Inr t \<Rightarrow> t | Inl e \<Rightarrow> g)"

text \<open>
  Modelled from the spec: \<open>is_new_grad\<close> says "whether this invocation starts a
  fresh accumulation or continues one from a prior partial pass" (section 4.2);
  unset, "this call should combine with a previously stored partial result rather than
  start fresh" (section 5). A reference that does not resolve is "not an error":
  "accumulation proceeds using only the explicitly supplied inputs" (section 7), and
  nothing is stored.
\<close>

definition update_leaf_grad ::
  "weak_ptr \<Rightarrow> bool \<Rightarrow> 'a::plus Tensor \<Rightarrow> 'a leaf_grads \<Rightarrow> 'a leaf_grads" where
  "update_leaf_grad ref is_new_grad final leaf =
     (case lock ref of
        None \<Rightarrow> leaf
      | Some a \<Rightarrow>
          leaf(a := (if is_new_grad then final else combine_partial (leaf a) final)))"

text \<open>
  Modelled from the spec: the whole invocation of \<^verbatim>\<open>operator()\<close>, the five steps
  and the leaf's slot. An invocation that returns a value updates the slot with the
  final value; one that fails stores nothing, and neither does a fake-empty node,
  which "performs no real accumulation".
\<close>

definition operator_call_leaf ::
  "('a::plus, 'w) GradNodeAccumulation \<Rightarrow> 'a Tensor list list \<Rightarrow> bool \<Rightarrow> bool \<Rightarrow> 'w
     \<Rightarrow> 'a leaf_grads \<Rightarrow> (error + 'a Tensor list list) \<times> 'w \<times> 'a leaf_grads" where
  "operator_call_leaf n grads create_graph is_new_grad w leaf =
     (case operator_call n grads create_graph is_new_grad w of
        (Inl e, w') \<Rightarrow> (Inl e, w', leaf)
      | (Inr out, w') \<Rightarrow>
          (Inr out, w',
           (case out of
              [[final]] \<Rightarrow>
                if is_fake_empty n then leaf
                else update_leaf_grad (weak_grad n) is_new_grad final leaf
            | _ \<Rightarrow> leaf)))"

subsection \<open>Nodes behind shared pointers\<close>

text \<open>
  Nodes are held by \<^verbatim>\<open>std::shared_ptr\<close>: a store of nodes, the address of a node
  being its index. \<^verbatim>\<open>Copy\<close> allocates the node it returns; a member function
  called through a pointer that names no node has no meaning (\<open>None\<close>).
\<close>

type_synonym ('a, 'w) node_store = "('a, 'w) GradNodeAccumulation list"

definition store_Copy ::
  "('a, 'w) node_store \<Rightarrow> nat \<Rightarrow> 32 word \<Rightarrow> string \<Rightarrow> (nat \<times> ('a, 'w) node_store) option" where
  "store_Copy st p FLAGS_call_stack_level python_stack =
     (if p < length st
      then Some (length st, st @ [Copy (st ! p) FLAGS_call_stack_level python_stack])
      else None)"

definition store_RegisterReduceHook ::
  "('a, 'w) node_store \<Rightarrow> nat \<Rightarrow> ('a, 'w) VoidHook \<Rightarrow> ('a, 'w) node_store option" where
  "store_RegisterReduceHook st p hook =
     (if p < length st then Some (st[p := RegisterReduceHook (st ! p) hook]) else None)"

subsection \<open>The lifetime of one node\<close>

text \<open>
  The public member functions as calls on one node and the world. \<^verbatim>\<open>Copy\<close>,
  \<^verbatim>\<open>name\<close> and \<^verbatim>\<open>ReduceHooksRegistered\<close> return a value and leave the node as
  it is; \<^verbatim>\<open>operator()\<close> and \<^verbatim>\<open>ApplyReduceHooks\<close> act on the world through the
  hooks. The leaf's slots are outside the node and no call reads them, so they are
  left out here.
\<close>

datatype ('a, 'w) member_call =
    Call_operator "'a Tensor list list" bool bool
  | Call_ClearTensorWrappers
  | Call_name
  | Call_RegisterReduceHook "('a, 'w) VoidHook"
  | Call_ReduceHooksRegistered
  | Call_ApplyReduceHooks "'a Tensor"
  | Call_Copy "32 word" string
  | Call_SetFakeEmpty bool

fun call_step ::
  "('a::plus, 'w) GradNodeAccumulation \<times> 'w \<Rightarrow> ('a, 'w) member_call
     \<Rightarrow> ('a, 'w) GradNodeAccumulation \<times> 'w" where
  "call_step (n, w) (Call_operator grads create_graph is_new_grad) =
     (n, snd (operator_call n grads create_graph is_new_grad w))"
| "call_step (n, w) Call_ClearTensorWrappers = (ClearTensorWrappers n, w)"
| "call_step (n, w) Call_name = (n, w)"
| "call_step (n, w) (Call_RegisterReduceHook hook) = (RegisterReduceHook n hook, w)"
| "call_step (n, w) Call_ReduceHooksRegistered = (n, w)"
| "call_step (n, w) (Call_ApplyReduceHooks g) = (n, snd (ApplyReduceHooks n g w))"
| "call_step (n, w) (Call_Copy lvl stack) = (n, w)"
| "call_step (n, w) (Call_SetFakeEmpty flag) = (SetFakeEmpty n flag, w)"

definition run_calls ::
  "('a::plus, 'w) GradNodeAccumulation \<times> 'w \<Rightarrow> ('a, 'w) member_call list
     \<Rightarrow> ('a, 'w) GradNodeAccumulation \<times> 'w" where
  "run_calls s calls = foldl call_step s calls"

fun is_RegisterReduceHook :: "('a, 'w) member_call \<Rightarrow> bool" where
  "is_RegisterReduceHook (Call_RegisterReduceHook hook) = True"
| "is_RegisterReduceHook _ = False"

subsection \<open>Observing the callables\<close>

text \<open>
  To see which callable ran, when and on what, the world is a log of events: the
  hook numbered \<open>i\<close> appends its number and the gradient it was passed; a recording
  transform appends the gradient it was applied to and returns \<open>f\<close> of it.
\<close>

datatype 'a event = RetainGradApplied "'a Tensor" | ReduceHookFired nat "'a Tensor"

definition recording_hook :: "nat \<Rightarrow> ('a, 'a event list) VoidHook" where
  "recording_hook i g w = (Inr (), w @ [ReduceHookFired i g])"

definition recording_retain :: "('a Tensor \<Rightarrow> 'a Tensor) \<Rightarrow> ('a, 'a event list) RetainHook" where
  "recording_retain f g w = (Inr (f g), w @ [RetainGradApplied g])"

text \<open>
  A hook with a state: it records as the recording hook does, and raises where the
  log shows that it has recorded the same gradient before.
\<close>

definition once_hook :: "nat \<Rightarrow> ('a, 'a event list) VoidHook" where
  "once_hook i g w =
     (if ReduceHookFired i g \<in> set w then (Inl (HookFailure ''twice''), w)
      else (Inr (), w @ [ReduceHookFired i g]))"

text \<open>A hook that raises, and leaves the world as it is.\<close>

definition raising_hook :: "('a, 'w) VoidHook" where
  "raising_hook g w = (Inl (HookFailure ''hook''), w)"

text \<open>A transform for the examples: the same elements, tagged as \<open>FLOAT64\<close>.\<close>

fun as_float64 :: "'a Tensor \<Rightarrow> 'a Tensor" where
  "as_float64 (DenseTensor d s xs) = DenseTensor FLOAT64 s xs"
| "as_float64 EmptyTensor = EmptyTensor"

subsection \<open>Compatible gradients and their elementwise sum\<close>

text \<open>
  A well-formed dense tensor has as many elements as its shape says. Two gradients
  combine when both are dense, of one element type, and their shapes broadcast;
  the gradients of a slot are compatible when each is well-formed and any two combine.
\<close>

fun well_formed :: "'a Tensor \<Rightarrow> bool" where
  "well_formed (DenseTensor d s xs) = (length xs = prod_list s)"
| "well_formed EmptyTensor = False"

fun combinable :: "'a Tensor \<Rightarrow> 'a Tensor \<Rightarrow> bool" where
  "combinable (DenseTensor d1 s1 x1) (DenseTensor d2 s2 x2) =
     (d1 = d2 \<and> broadcast_shapes s1 s2 \<noteq> None)"
| "combinable _ _ = False"

definition compatible :: "'a Tensor list \<Rightarrow> bool" where
  "compatible ts = (list_all well_formed ts \<and> list_all (\<lambda>t. list_all (combinable t) ts) ts)"

text \<open>
  A shape fits another of the same rank when every extent is the other's or 1; a
  shape broadcasts to another when, padded to its rank, it fits it.
\<close>

abbreviation fits :: "nat list \<Rightarrow> nat list \<Rightarrow> bool" where
  "fits ms ns \<equiv> list_all2 (\<lambda>m n. m = n \<or> m = 1) ms ns"

definition broadcasts_to :: "nat list \<Rightarrow> nat list \<Rightarrow> bool" where
  "broadcasts_to s t = fits (pad_shape (length t) s) t"

fun has_dtype :: "DataType \<Rightarrow> 'a Tensor \<Rightarrow> bool" where
  "has_dtype d (DenseTensor d' s xs) = (d' = d)"
| "has_dtype d EmptyTensor = False"

fun shape_of :: "'a Tensor \<Rightarrow> nat list" where
  "shape_of (DenseTensor d s xs) = s"
| "shape_of EmptyTensor = []"

fun data_of :: "'a Tensor \<Rightarrow> 'a list" where
  "data_of (DenseTensor d s xs) = xs"
| "data_of EmptyTensor = []"

text \<open>
  The shape all the shapes of a list broadcast to: along every axis the extent that
  is not 1, if there is one.
\<close>

definition joint_shape :: "nat list list \<Rightarrow> nat list" where
  "joint_shape ss = foldl merge_shapes [] ss"

text \<open>
  The elementwise sum of a list of gradients: the empty result for no gradient;
  otherwise the dense tensor of the joint shape whose element at every position is
  the sum of the elements the gradients, broadcast to that shape, have there (and
  nothing for a list that starts with the placeholder, which is not compatible).
\<close>

fun elementwise_sum :: "'a::comm_monoid_add Tensor list \<Rightarrow> 'a Tensor" where
  "elementwise_sum [] = EmptyTensor"
| "elementwise_sum (EmptyTensor # us) = EmptyTensor"
| "elementwise_sum (DenseTensor d s xs # us) =
     (let ts = DenseTensor d s xs # us; r = joint_shape (map shape_of ts)
      in DenseTensor d r
           (map (\<lambda>j. sum_list (map (\<lambda>u. broadcast_to (shape_of u) r (data_of u) ! j) ts))
                [0..<prod_list r]))"

section \<open>Properties\<close>

text \<open>
  C8, as the code has it: \<^verbatim>\<open>name()\<close> returns the identifier
  \<^verbatim>\<open>"GradNodeAccumulation"\<close> for every node.
\<close>

theorem name_is_GradNodeAccumulation: "name n = ''GradNodeAccumulation''"
  by (simp add: name_def)

text \<open>
  C8 as the specification states it fails: for a freshly constructed node the
  identifier is not \<^verbatim>\<open>"AccumulationNode"\<close>.
\<close>

theorem name_not_AccumulationNode:
  "name (GradNodeAccumulation_init None 0 [] :: (int, unit) GradNodeAccumulation)
     \<noteq> ''AccumulationNode''"
  by (simp add: name_def)

subsection \<open>Fields of a constructed node\<close>

lemma init_fields:
  "weak_grad (GradNodeAccumulation_init None lvl stk) = WeakUnset"
  "weak_grad (GradNodeAccumulation_init (Some m) lvl stk) = WeakLive (leaf_grad m)"
  "is_fake_empty (GradNodeAccumulation_init meta lvl stk) = False"
  "reduce_hooks (GradNodeAccumulation_init meta lvl stk) = []"
  "retain_grad_hook (GradNodeAccumulation_init meta lvl stk) = None"
  "bwd_in_slot_num (GradNodeAccumulation_init meta lvl stk) = 1"
  "bwd_out_slot_num (GradNodeAccumulation_init meta lvl stk) = 1"
  by (simp_all add: GradNodeAccumulation_init_def SetDefaultGradInOutMeta_def SetForwardTrace_def
      GradNodeBase_init_def GradNodeBase.extend_def GradNodeAccumulation.fields_def Let_def
      WeakGrad_def split: option.split)

lemma init_no_hooks:
  "ReduceHooksRegistered (GradNodeAccumulation_init meta lvl stk) = False"
  by (simp add: ReduceHooksRegistered_def init_fields)

lemma foldl_RegisterReduceHook:
  "reduce_hooks (foldl RegisterReduceHook n hs) = reduce_hooks n @ hs"
  "is_fake_empty (foldl RegisterReduceHook n hs) = is_fake_empty n"
  "retain_grad_hook (foldl RegisterReduceHook n hs) = retain_grad_hook n"
  by (induction hs arbitrary: n) (simp_all add: RegisterReduceHook_def)

subsection \<open>Calls leave the base and the transform alone\<close>

lemma call_step_base:
  "bwd_in_slot_num (fst (call_step s c)) = bwd_in_slot_num (fst s)"
  "bwd_out_slot_num (fst (call_step s c)) = bwd_out_slot_num (fst s)"
  "retain_grad_hook (fst (call_step s c)) = retain_grad_hook (fst s)"
  by (cases s; cases c;
      simp add: ClearTensorWrappers_def RegisterReduceHook_def SetFakeEmpty_def)+

lemma call_step_hooks:
  "ReduceHooksRegistered (fst (call_step s c))
     = (ReduceHooksRegistered (fst s) \<or> is_RegisterReduceHook c)"
  by (cases s; cases c;
      simp add: ClearTensorWrappers_def RegisterReduceHook_def SetFakeEmpty_def
        ReduceHooksRegistered_def)

lemma run_calls_base:
  "bwd_in_slot_num (fst (run_calls s calls)) = bwd_in_slot_num (fst s)"
  "bwd_out_slot_num (fst (run_calls s calls)) = bwd_out_slot_num (fst s)"
  "retain_grad_hook (fst (run_calls s calls)) = retain_grad_hook (fst s)"
  unfolding run_calls_def
  by (induction calls arbitrary: s) (simp_all add: call_step_base)

lemma run_calls_hooks:
  "ReduceHooksRegistered (fst (run_calls s calls))
     = (ReduceHooksRegistered (fst s) \<or> list_ex is_RegisterReduceHook calls)"
  unfolding run_calls_def
  by (induction calls arbitrary: s) (auto simp add: call_step_hooks)

text \<open>
  The header has no member function that sets the retain-grad transform: no node
  built by the constructor and the public member functions has one.
\<close>

lemma retain_grad_hook_never_set:
  "retain_grad_hook (fst (run_calls (GradNodeAccumulation_init meta lvl stk, w) calls)) = None"
  by (simp add: run_calls_base init_fields)

subsection \<open>Concrete gradients\<close>

lemma ones_plus_twos:
  "accumulate [DenseTensor FLOAT32 [2, 2] [1, 1, 1, 1 :: int],
               DenseTensor FLOAT32 [2, 2] [2, 2, 2, 2]]
     = Inr (DenseTensor FLOAT32 [2, 2] [3, 3, 3, 3])"
  by code_simp

lemma column_plus_row:
  "accumulate [DenseTensor FLOAT32 [2, 1] [1, 2 :: int], DenseTensor FLOAT32 [3] [10, 20, 30]]
     = Inr (DenseTensor FLOAT32 [2, 3] [11, 21, 31, 12, 22, 32])"
  by code_simp

lemma two_against_three:
  "accumulate [DenseTensor FLOAT32 [2] [1, 2 :: int], DenseTensor FLOAT32 [3] [10, 20, 30]]
     = Inl ShapeMismatch"
  by code_simp

lemma float_against_int:
  "accumulate [DenseTensor FLOAT32 [3] [1, 1, 1 :: int], DenseTensor INT64 [2, 2] [1, 2, 3, 4]]
     = Inl TypeMismatch"
  by code_simp

subsection \<open>The fake-empty mode\<close>

text \<open>
  C2: when \<open>is_fake_empty\<close> is set, an invocation returns the empty result in its
  one output slot whatever the inputs are; nothing is added, no callable runs (the
  world is as before), and no error is raised, also for inputs that do not combine.
\<close>

theorem fake_empty_short_circuit:
  "is_fake_empty n \<Longrightarrow>
     operator_call n grads create_graph is_new_grad w = (Inr [[EmptyTensor]], w)"
  by (simp add: operator_call_def)

theorem fake_empty_short_circuit_witness:
  "is_fake_empty (RegisterReduceHook (SetFakeEmpty
       (GradNodeAccumulation_init None 0 [] :: (int, int event list) GradNodeAccumulation) True)
       (recording_hook 0))
   \<and> accumulate [DenseTensor FLOAT32 [3] [1, 1, 1 :: int], DenseTensor INT64 [2, 2] [1, 2, 3, 4]]
       = Inl TypeMismatch
   \<and> operator_call (RegisterReduceHook (SetFakeEmpty (GradNodeAccumulation_init None 0 []) True)
          (recording_hook 0))
        [[DenseTensor FLOAT32 [3] [1, 1, 1 :: int], DenseTensor INT64 [2, 2] [1, 2, 3, 4]]]
        False True []
      = (Inr [[EmptyTensor]], [])"
proof -
  have fake: "is_fake_empty (RegisterReduceHook (SetFakeEmpty
       (GradNodeAccumulation_init None 0 [] :: (int, int event list) GradNodeAccumulation) True)
       (recording_hook 0))"
    by (simp add: SetFakeEmpty_def RegisterReduceHook_def)
  show ?thesis
    using fake fake_empty_short_circuit [OF fake] float_against_int by simp
qed

subsection \<open>The five steps do not read the leaf reference\<close>





subsection \<open>Copy\<close>

text \<open>
  C5: the node \<^verbatim>\<open>Copy\<close> returns is a new node (the original is as before, also
  when it holds a live leaf reference); its leaf reference is unset, its
  \<open>is_fake_empty\<close> is false and its hook list is empty. A hook registered on the
  clone leaves the original as it was, and a hook registered on the original leaves
  the clone as it was.
\<close>

theorem Copy_is_unbound_and_independent:
  assumes "store_Copy st p lvl stk = Some (c, st')"
  shows "c \<noteq> p \<and> st' ! p = st ! p
    \<and> weak_grad (st' ! c) = WeakUnset
    \<and> is_fake_empty (st' ! c) = False
    \<and> reduce_hooks (st' ! c) = []
    \<and> (\<forall>hook. \<exists>st''. store_RegisterReduceHook st' c hook = Some st''
          \<and> st'' ! p = st ! p \<and> reduce_hooks (st'' ! c) = [hook])
    \<and> (\<forall>hook. \<exists>st''. store_RegisterReduceHook st' p hook = Some st''
          \<and> st'' ! c = st' ! c \<and> reduce_hooks (st'' ! p) = reduce_hooks (st ! p) @ [hook])"
proof -
  from assms have p: "p < length st" and c: "c = length st"
    and st': "st' = st @ [Copy (st ! p) lvl stk]"
    by (auto simp: store_Copy_def split: if_splits)
  have clone: "st' ! length st = GradNodeAccumulation_init None lvl stk"
    by (simp add: st' Copy_def)
  have orig: "st' ! p = st ! p"
    using p by (simp add: st' nth_append)
  have ne: "c \<noteq> p" using p c by simp
  have len: "length st' = Suc (length st)" by (simp add: st')
  show ?thesis
    using p ne orig
    by (simp add: clone init_fields store_RegisterReduceHook_def len c RegisterReduceHook_def)
qed

theorem Copy_is_unbound_and_independent_witness:
  "weak_grad (SetFakeEmpty (RegisterReduceHook
       (GradNodeAccumulation_init (Some \<lparr>leaf_grad = 7\<rparr>) 0 []
          :: (int, int event list) GradNodeAccumulation) (recording_hook 0)) True) = WeakLive 7
   \<and> store_Copy [SetFakeEmpty (RegisterReduceHook
         (GradNodeAccumulation_init (Some \<lparr>leaf_grad = 7\<rparr>) 0 []
            :: (int, int event list) GradNodeAccumulation) (recording_hook 0)) True] 0 0 []
       = Some (1, [SetFakeEmpty (RegisterReduceHook
            (GradNodeAccumulation_init (Some \<lparr>leaf_grad = 7\<rparr>) 0 []) (recording_hook 0)) True,
          GradNodeAccumulation_init None 0 []])
   \<and> weak_grad (GradNodeAccumulation_init None 0 []
          :: (int, int event list) GradNodeAccumulation) = WeakUnset
   \<and> is_fake_empty (GradNodeAccumulation_init None 0 []
          :: (int, int event list) GradNodeAccumulation) = False
   \<and> reduce_hooks (GradNodeAccumulation_init None 0 []
          :: (int, int event list) GradNodeAccumulation) = []"
proof -
  let ?orig = "SetFakeEmpty (RegisterReduceHook
       (GradNodeAccumulation_init (Some \<lparr>leaf_grad = 7\<rparr>) 0 []
          :: (int, int event list) GradNodeAccumulation) (recording_hook 0)) True"
  have live: "weak_grad ?orig = WeakLive 7"
    by (simp add: SetFakeEmpty_def RegisterReduceHook_def init_fields)
  have copy: "store_Copy [?orig] 0 0 [] = Some (1, [?orig, GradNodeAccumulation_init None 0 []])"
    by (simp add: store_Copy_def Copy_def)
  show ?thesis
    using live copy Copy_is_unbound_and_independent [OF copy] by simp
qed

subsection \<open>Arity\<close>

text \<open>
  C9: a node has one input slot and one output slot when it is constructed, bound to
  a leaf or not, and when it is a clone; and it has them still after any sequence of
  calls of its member functions (\<^verbatim>\<open>operator()\<close>, \<^verbatim>\<open>RegisterReduceHook\<close>,
  \<^verbatim>\<open>ApplyReduceHooks\<close>, \<^verbatim>\<open>SetFakeEmpty\<close>, \<^verbatim>\<open>Copy\<close>,
  \<^verbatim>\<open>ClearTensorWrappers\<close>, \<^verbatim>\<open>name\<close>, \<^verbatim>\<open>ReduceHooksRegistered\<close>).
\<close>

theorem arity_is_fixed:
  "arity (GradNodeAccumulation_init meta lvl stk) = (1, 1)
   \<and> arity (fst (run_calls (GradNodeAccumulation_init meta lvl stk, w) calls)) = (1, 1)
   \<and> arity (Copy n lvl stk) = (1, 1)
   \<and> arity (fst (run_calls (Copy n lvl stk, w) calls)) = (1, 1)"
  by (simp add: arity_def run_calls_base init_fields Copy_def)

subsection \<open>A fresh node\<close>

text \<open>
  C10: a node just constructed, bound or not, and a clone just made by \<^verbatim>\<open>Copy\<close>
  have \<open>is_fake_empty\<close> false, no reduce hook (\<^verbatim>\<open>ReduceHooksRegistered\<close> is
  false) and no retain-grad transform; after any sequence of calls
  \<^verbatim>\<open>ReduceHooksRegistered\<close> is true exactly when one of the calls was a
  \<^verbatim>\<open>RegisterReduceHook\<close>.
\<close>

theorem fresh_node_defaults:
  "is_fake_empty (GradNodeAccumulation_init meta lvl stk) = False
   \<and> reduce_hooks (GradNodeAccumulation_init meta lvl stk) = []
   \<and> ReduceHooksRegistered (GradNodeAccumulation_init meta lvl stk) = False
   \<and> retain_grad_hook (GradNodeAccumulation_init meta lvl stk) = None
   \<and> ReduceHooksRegistered (fst (run_calls (GradNodeAccumulation_init meta lvl stk, w) calls))
       = list_ex is_RegisterReduceHook calls
   \<and> is_fake_empty (Copy n lvl stk) = False
   \<and> reduce_hooks (Copy n lvl stk) = []
   \<and> ReduceHooksRegistered (Copy n lvl stk) = False
   \<and> retain_grad_hook (Copy n lvl stk) = None
   \<and> ReduceHooksRegistered (fst (run_calls (Copy n lvl stk, w) calls))
       = list_ex is_RegisterReduceHook calls"
  by (simp add: run_calls_hooks init_no_hooks init_fields Copy_def)

subsection \<open>Reduce hooks\<close>

text \<open>
  When the traversal of the hooks returns, every hook has returned in the world it
  was invoked in, and the world is the one the hooks leave when each is invoked once,
  in order.
\<close>

lemma run_reduce_hooks_Inr:
  "fst (run_reduce_hooks hooks g w) = Inr () \<Longrightarrow>
     run_reduce_hooks hooks g w = (Inr (), foldl (\<lambda>w' h. snd (h g w')) w hooks)"
proof (induction hooks arbitrary: w)
  case Nil
  then show ?case by simp
next
  case (Cons h hooks)
  obtain r w1 where h: "h g w = (r, w1)" by (cases "h g w")
  show ?case
  proof (cases r)
    case (Inl e)
    with h Cons.prems show ?thesis by simp
  next
    case (Inr u)
    with h Cons.prems have "fst (run_reduce_hooks hooks g w1) = Inr ()" by simp
    then have "run_reduce_hooks hooks g w1 = (Inr (), foldl (\<lambda>w' h. snd (h g w')) w1 hooks)"
      by (rule Cons.IH)
    with h Inr show ?thesis by simp
  qed
qed

text \<open>
  C3, as the model has it: register any hooks, in their order, on a node whose
  \<open>is_fake_empty\<close> is unset (after the hooks it has already). In an invocation whose
  accumulation and retain-grad transform succeed and in which the hooks return, the
  world is the one the hooks leave when each is invoked once, in registration order,
  on the final value, starting from the world \<open>w1\<close> the transform left: no hook has
  run before the accumulation and the transform were complete.
\<close>

theorem reduce_hooks_fire_once_in_order:
  assumes "\<not> is_fake_empty n"
    and "accumulate slot = Inr acc"
    and "apply_retain_grad_hook n acc w = (Inr final, w1)"
    and "fst (run_reduce_hooks (reduce_hooks n @ hooks) final w1) = Inr ()"
  shows "operator_call (foldl RegisterReduceHook n hooks) [slot] create_graph is_new_grad w
         = (Inr [[final]], foldl (\<lambda>w' h. snd (h final w')) w1 (reduce_hooks n @ hooks))"
proof -
  let ?n = "foldl RegisterReduceHook n hooks"
  have "apply_retain_grad_hook ?n acc w = (Inr final, w1)"
    using assms(3) by (simp add: apply_retain_grad_hook_def foldl_RegisterReduceHook)
  moreover have "ApplyReduceHooks ?n final w1
      = (Inr (), foldl (\<lambda>w' h. snd (h final w')) w1 (reduce_hooks n @ hooks))"
    unfolding ApplyReduceHooks_def foldl_RegisterReduceHook
    using assms(4) by (rule run_reduce_hooks_Inr)
  ultimately show ?thesis
    using assms(1,2) by (simp add: operator_call_def foldl_RegisterReduceHook)
qed

text \<open>
  With three hooks, two of which would raise in another world, the log shows each of
  them once, in their order.
\<close>

theorem reduce_hooks_fire_once_in_order_witness:
  "operator_call (foldl RegisterReduceHook (GradNodeAccumulation_init None 0 [])
       [once_hook 1, recording_hook 2, once_hook 3])
     [[DenseTensor FLOAT32 [2, 2] [1, 1, 1, 1 :: int], DenseTensor FLOAT32 [2, 2] [2, 2, 2, 2]]]
     False True []
   = (Inr [[DenseTensor FLOAT32 [2, 2] [3, 3, 3, 3]]],
      [ReduceHookFired 1 (DenseTensor FLOAT32 [2, 2] [3, 3, 3, 3]),
       ReduceHookFired 2 (DenseTensor FLOAT32 [2, 2] [3, 3, 3, 3]),
       ReduceHookFired 3 (DenseTensor FLOAT32 [2, 2] [3, 3, 3, 3])])"
proof -
  let ?n = "GradNodeAccumulation_init None 0 [] :: (int, int event list) GradNodeAccumulation"
  let ?g = "DenseTensor FLOAT32 [2, 2] [3, 3, 3, 3 :: int]"
  let ?hooks = "[once_hook 1, recording_hook 2, once_hook 3]
      :: (int, int event list) VoidHook list"
  have a: "\<not> is_fake_empty ?n" and b: "reduce_hooks ?n = []"
    by (simp_all add: init_fields)
  have d: "apply_retain_grad_hook ?n ?g [] = (Inr ?g, [])"
    by (simp add: apply_retain_grad_hook_def init_fields)
  have e: "fst (run_reduce_hooks (reduce_hooks ?n @ ?hooks) ?g []) = Inr ()"
    unfolding b by (simp add: once_hook_def recording_hook_def)
  have f: "foldl (\<lambda>w' h. snd (h ?g w')) [] (reduce_hooks ?n @ ?hooks)
      = [ReduceHookFired 1 ?g, ReduceHookFired 2 ?g, ReduceHookFired 3 ?g]"
    unfolding b by (simp add: once_hook_def recording_hook_def)
  show ?thesis
    using reduce_hooks_fire_once_in_order [OF a ones_plus_twos d e, of False True]
    unfolding f .
qed

text \<open>
  C3 as the specification states it, for every invocation, fails: a hook registered
  on a fake-empty node is not invoked by an invocation (the log stays empty), and
  neither is a hook on an ordinary node when the gradients do not combine.
\<close>

theorem reduce_hook_not_fired_counterexample:
  "operator_call (RegisterReduceHook (SetFakeEmpty (GradNodeAccumulation_init None 0 []) True)
        (recording_hook 1))
     [[DenseTensor FLOAT32 [2, 2] [1, 1, 1, 1 :: int], DenseTensor FLOAT32 [2, 2] [2, 2, 2, 2]]]
     False True []
   = (Inr [[EmptyTensor]], [])
   \<and> operator_call (RegisterReduceHook (GradNodeAccumulation_init None 0 []) (recording_hook 1))
     [[DenseTensor FLOAT32 [2] [1, 2 :: int], DenseTensor FLOAT32 [3] [10, 20, 30]]]
     False True []
   = (Inl ShapeMismatch, [])"
proof -
  have "is_fake_empty (RegisterReduceHook (SetFakeEmpty
       (GradNodeAccumulation_init None 0 [] :: (int, int event list) GradNodeAccumulation) True)
       (recording_hook 1))"
    by (simp add: SetFakeEmpty_def RegisterReduceHook_def)
  moreover have "\<not> is_fake_empty (RegisterReduceHook
       (GradNodeAccumulation_init None 0 [] :: (int, int event list) GradNodeAccumulation)
       (recording_hook 1))"
    by (simp add: RegisterReduceHook_def init_fields)
  ultimately show ?thesis
    by (simp add: operator_call_def two_against_three del: accumulate.simps)
qed

subsection \<open>Shapes that broadcast\<close>

lemma length_pad_shape: "length (pad_shape r s) = max r (length s)"
  by (simp add: pad_shape_def)

lemma pad_shape_self [simp]: "length s \<le> r \<Longrightarrow> length (pad_shape r s) = r"
  by (simp add: pad_shape_def)

lemma pad_shape_id [simp]: "pad_shape (length s) s = s"
  by (simp add: pad_shape_def)

lemma pad_shape_pad:
  "length s \<le> r \<Longrightarrow> r \<le> q \<Longrightarrow> pad_shape q s = replicate (q - r) 1 @ pad_shape r s"
  by (simp add: pad_shape_def replicate_add [symmetric])

lemma broadcasts_to_length: "broadcasts_to s t \<Longrightarrow> length s \<le> length t"
  by (auto simp: broadcasts_to_def length_pad_shape dest!: list_all2_lengthD)

lemma broadcasts_to_refl: "broadcasts_to s s"
  by (simp add: broadcasts_to_def list_all2_same)

lemma length_merge_shapes: "length (merge_shapes s t) = max (length s) (length t)"
  by (simp add: merge_shapes_def Let_def length_pad_shape)

lemma merge_shapes_nth:
  "i < max (length a) (length b) \<Longrightarrow>
     merge_shapes a b ! i =
       (if pad_shape (max (length a) (length b)) a ! i = 1
        then pad_shape (max (length a) (length b)) b ! i
        else pad_shape (max (length a) (length b)) a ! i)"
  by (simp add: merge_shapes_def Let_def)

lemma broadcast_shapes_Some:
  assumes "broadcast_shapes a b = Some c"
  shows "c = merge_shapes a b" and "broadcasts_to a c" and "broadcasts_to b c"
proof -
  let ?r = "max (length a) (length b)"
  from assms have c: "c = merge_shapes a b"
    and q: "list_all2 (\<lambda>m n. m = n \<or> m = 1 \<or> n = 1) (pad_shape ?r a) (pad_shape ?r b)"
    by (auto simp: broadcast_shapes_def Let_def split: if_splits)
  show "c = merge_shapes a b" by (rule c)
  have len: "length c = ?r" by (simp add: c length_merge_shapes)
  have la: "length (pad_shape ?r a) = ?r" and lb: "length (pad_shape ?r b) = ?r"
    by simp_all
  show "broadcasts_to a c"
    unfolding broadcasts_to_def len list_all2_conv_all_nth
    using la len by (simp add: c merge_shapes_nth)
  have "\<forall>i<?r. pad_shape ?r a ! i = pad_shape ?r b ! i \<or> pad_shape ?r a ! i = 1
          \<or> pad_shape ?r b ! i = 1"
    using q la unfolding list_all2_conv_all_nth by simp
  then show "broadcasts_to b c"
    unfolding broadcasts_to_def len list_all2_conv_all_nth
    using lb len by (auto simp add: c merge_shapes_nth)
qed

lemma broadcasts_to_padded:
  assumes "broadcasts_to a b" and "length b \<le> q"
  shows "list_all2 (\<lambda>m n. m = n \<or> m = 1) (pad_shape q a) (pad_shape q b)"
proof -
  have ab: "length a \<le> length b" using assms(1) by (rule broadcasts_to_length)
  have "pad_shape q a = replicate (q - length b) 1 @ pad_shape (length b) a"
    using ab assms(2) by (rule pad_shape_pad)
  moreover have "pad_shape q b = replicate (q - length b) 1 @ b"
    by (simp add: pad_shape_def)
  ultimately show ?thesis
    using assms(1) by (simp add: broadcasts_to_def list_all2_appendI list_all2_same)
qed


lemma broadcasts_to_trans:
  assumes "broadcasts_to a b" and "broadcasts_to b c"
  shows "broadcasts_to a c"
proof -
  have "list_all2 (\<lambda>m n. m = n \<or> m = 1) (pad_shape (length c) a) (pad_shape (length c) b)"
    using assms(1) broadcasts_to_length [OF assms(2)] by (rule broadcasts_to_padded)
  moreover have "list_all2 (\<lambda>m n. m = n \<or> m = 1) (pad_shape (length c) b) c"
    using assms(2) by (simp add: broadcasts_to_def)
  ultimately have "list_all2 (\<lambda>m n. m = n \<or> m = 1) (pad_shape (length c) a) c"
    by (rule list_all2_trans [rotated]) auto
  then show ?thesis by (simp add: broadcasts_to_def)
qed


lemma broadcasts_to_common:
  assumes "broadcasts_to a c" and "broadcasts_to b c"
  shows "broadcast_shapes a b = Some (merge_shapes a b)"
proof -
  let ?r = "max (length a) (length b)"
  let ?P = "\<lambda>m n :: nat. m = n \<or> m = 1"
  let ?Q = "\<lambda>m n :: nat. m = n \<or> m = 1 \<or> n = 1"
  have la: "length a \<le> length c" and lb: "length b \<le> length c"
    using assms by (auto dest: broadcasts_to_length)
  have r: "?r \<le> length c" using la lb by simp
  have pa: "pad_shape (length c) a = replicate (length c - ?r) 1 @ pad_shape ?r a"
    by (rule pad_shape_pad) (use r in simp_all)
  have pb: "pad_shape (length c) b = replicate (length c - ?r) 1 @ pad_shape ?r b"
    by (rule pad_shape_pad) (use r in simp_all)
  define c2 where "c2 = drop (length c - ?r) c"
  have c: "c = take (length c - ?r) c @ c2" by (simp add: c2_def)
  have l2: "length c2 = ?r" using r by (simp add: c2_def)
  have "list_all2 ?P (replicate (length c - ?r) 1 @ pad_shape ?r a) (take (length c - ?r) c @ c2)"
    using assms(1) pa c by (simp add: broadcasts_to_def)
  then have a2: "list_all2 ?P (pad_shape ?r a) c2"
    by (subst (asm) list_all2_append) (use r in simp_all)
  have "list_all2 ?P (replicate (length c - ?r) 1 @ pad_shape ?r b) (take (length c - ?r) c @ c2)"
    using assms(2) pb c by (simp add: broadcasts_to_def)
  then have b2: "list_all2 ?P (pad_shape ?r b) c2"
    by (subst (asm) list_all2_append) (use r in simp_all)
  have "list_all2 ?Q (pad_shape ?r a) (pad_shape ?r b)"
  proof (rule list_all2_all_nthI)
    show "length (pad_shape ?r a) = length (pad_shape ?r b)" by simp
  next
    fix i assume ia: "i < length (pad_shape ?r a)"
    then have ib: "i < length (pad_shape ?r b)" by simp
    have "pad_shape ?r a ! i = c2 ! i \<or> pad_shape ?r a ! i = 1"
      by (rule list_all2_nthD [OF a2 ia])
    moreover have "pad_shape ?r b ! i = c2 ! i \<or> pad_shape ?r b ! i = 1"
      by (rule list_all2_nthD [OF b2 ib])
    ultimately show "pad_shape ?r a ! i = pad_shape ?r b ! i \<or> pad_shape ?r a ! i = 1
        \<or> pad_shape ?r b ! i = 1"
      by presburger
  qed
  then show ?thesis by (simp add: broadcast_shapes_def Let_def)
qed

subsection \<open>Accumulation that fails\<close>

lemma tensor_add_Inr:
  assumes "tensor_add a b = Inr c"
  obtains d s1 x1 s2 x2 s where "a = DenseTensor d s1 x1" and "b = DenseTensor d s2 x2"
    and "broadcast_shapes s1 s2 = Some s"
    and "c = DenseTensor d s (map2 (+) (broadcast_to s1 s x1) (broadcast_to s2 s x2))"
  using assms
  by (cases a; cases b) (auto split: if_splits option.splits)

lemma tensor_add_Inl:
  "tensor_add a b = Inl e \<Longrightarrow> e = ShapeMismatch \<or> e = TypeMismatch"
  by (cases a; cases b) (auto split: if_splits option.splits)

lemma add_all_Inl:
  "add_all acc ts = Inl e \<Longrightarrow> e = ShapeMismatch \<or> e = TypeMismatch"
  by (induction ts arbitrary: acc) (auto split: sum.splits dest: tensor_add_Inl)

lemma accumulate_Inl:
  "accumulate ts = Inl e \<Longrightarrow> e = ShapeMismatch \<or> e = TypeMismatch"
  by (cases ts) (auto dest: add_all_Inl)

lemma add_all_Inr:
  assumes "add_all acc ts = Inr r" and "ts \<noteq> []"
  shows "\<exists>d. has_dtype d r \<and> (\<forall>t \<in> set (acc # ts).
           has_dtype d t \<and> broadcasts_to (shape_of t) (shape_of r))"
  using assms
proof (induction ts arbitrary: acc)
  case Nil
  then show ?case by simp
next
  case (Cons t ts)
  from Cons.prems(1) obtain acc' where step: "tensor_add acc t = Inr acc'"
    and rest: "add_all acc' ts = Inr r"
    by (auto split: sum.splits)
  from step obtain d s1 x1 s2 x2 s where acc: "acc = DenseTensor d s1 x1"
    and t: "t = DenseTensor d s2 x2" and s: "broadcast_shapes s1 s2 = Some s"
    and acc': "acc' = DenseTensor d s (map2 (+) (broadcast_to s1 s x1) (broadcast_to s2 s x2))"
    by (rule tensor_add_Inr)
  note b = broadcast_shapes_Some(2,3) [OF s]
  show ?case
  proof (cases "ts = []")
    case True
    with rest have "r = acc'" by simp
    then show ?thesis using acc t acc' b True by auto
  next
    case False
    from Cons.IH [OF rest False] obtain d' where r: "has_dtype d' r"
      and all: "\<forall>u \<in> set (acc' # ts). has_dtype d' u \<and> broadcasts_to (shape_of u) (shape_of r)"
      by blast
    from all acc' have d': "d' = d" and sr: "broadcasts_to s (shape_of r)" by auto
    have "broadcasts_to s1 (shape_of r)" "broadcasts_to s2 (shape_of r)"
      using b sr by (auto intro: broadcasts_to_trans)
    then show ?thesis using r all d' acc t by auto
  qed
qed


lemma two_and_three_do_not_broadcast: "broadcast_shapes [2] [3] = None"
  by code_simp

text \<open>
  C6: when \<open>is_fake_empty\<close> is unset and the input slot holds two dense gradients
  whose element types differ or whose shapes do not broadcast, the invocation fails
  with \<open>ShapeMismatch\<close> or \<open>TypeMismatch\<close>: no result is returned, nothing is
  coerced, and no transform or hook has run (the world is as before).
\<close>

theorem incompatible_gradients_fail:
  assumes "\<not> is_fake_empty n"
    and "DenseTensor d1 s1 x1 \<in> set slot" and "DenseTensor d2 s2 x2 \<in> set slot"
    and "d1 \<noteq> d2 \<or> broadcast_shapes s1 s2 = None"
  shows "operator_call n [slot] create_graph is_new_grad w = (Inl ShapeMismatch, w)
       \<or> operator_call n [slot] create_graph is_new_grad w = (Inl TypeMismatch, w)"
proof (cases "accumulate slot")
  case (Inl e)
  then show ?thesis
    using assms(1) accumulate_Inl [OF Inl] by (auto simp: operator_call_def)
next
  case (Inr r)
  from assms(2) obtain t ts where slot: "slot = t # ts" by (cases slot) auto
  have False
  proof (cases "ts = []")
    case True
    with slot assms(2,3) have "d1 = d2" "s1 = s2" by auto
    moreover have "broadcast_shapes s1 s1 = Some (merge_shapes s1 s1)"
      by (rule broadcasts_to_common [OF broadcasts_to_refl broadcasts_to_refl])
    ultimately show False using assms(4) by simp
  next
    case False
    from Inr slot have "add_all t ts = Inr r" by simp
    from add_all_Inr [OF this False] slot obtain d where
      all: "\<forall>u \<in> set slot. has_dtype d u \<and> broadcasts_to (shape_of u) (shape_of r)"
      by auto
    from all assms(2) have 1: "d1 = d" "broadcasts_to s1 (shape_of r)" by force+
    from all assms(3) have 2: "d2 = d" "broadcasts_to s2 (shape_of r)" by force+
    from broadcasts_to_common [OF 1(2) 2(2)] 1(1) 2(1) assms(4) show False by simp
  qed
  then show ?thesis ..
qed

theorem incompatible_gradients_fail_witness:
  "\<not> is_fake_empty (RegisterReduceHook (GradNodeAccumulation_init None 0 []
        :: (int, int event list) GradNodeAccumulation) (recording_hook 1))
   \<and> broadcast_shapes [2] [3] = None
   \<and> operator_call (RegisterReduceHook (GradNodeAccumulation_init None 0 []) (recording_hook 1))
        [[DenseTensor FLOAT32 [2] [1, 2 :: int], DenseTensor FLOAT32 [3] [10, 20, 30]]]
        False True []
      = (Inl ShapeMismatch, [])"
proof -
  let ?n = "RegisterReduceHook (GradNodeAccumulation_init None 0 []
        :: (int, int event list) GradNodeAccumulation) (recording_hook 1)"
  have a: "\<not> is_fake_empty ?n" by (simp add: RegisterReduceHook_def init_fields)
  have b: "DenseTensor FLOAT32 [2] [1, 2 :: int]
      \<in> set [DenseTensor FLOAT32 [2] [1, 2], DenseTensor FLOAT32 [3] [10, 20, 30]]"
    and c: "DenseTensor FLOAT32 [3] [10, 20, 30 :: int]
      \<in> set [DenseTensor FLOAT32 [2] [1, 2], DenseTensor FLOAT32 [3] [10, 20, 30]]"
    by simp_all
  have d: "FLOAT32 \<noteq> FLOAT32 \<or> broadcast_shapes [2] [3] = None"
    by (simp add: two_and_three_do_not_broadcast)
  have e: "operator_call ?n
        [[DenseTensor FLOAT32 [2] [1, 2 :: int], DenseTensor FLOAT32 [3] [10, 20, 30]]]
        False True [] \<noteq> (Inl TypeMismatch, [])"
    using a by (simp add: operator_call_def two_against_three del: accumulate.simps)
  show ?thesis
    using incompatible_gradients_fail [OF a b c d, of False True "[]"] a e
      two_and_three_do_not_broadcast
    by simp
qed

subsection \<open>Laying elements out in a larger shape\<close>

lemma concat_chunks: "concat (map (\<lambda>i. take k (drop (i * k) xs)) [0..<m]) = take (m * k) xs"
proof (induction m)
  case 0
  then show ?case by simp
next
  case (Suc m)
  have "take (m * k + k) xs = take (m * k) xs @ take k (drop (m * k) xs)"
    by (rule take_add)
  then have "take (k + m * k) xs = take (m * k) xs @ take k (drop (m * k) xs)"
    by (simp only: add.commute)
  then show ?case using Suc by simp
qed

lemma length_concat_upt:
  "(\<And>i. i < m \<Longrightarrow> length (f i) = c) \<Longrightarrow> length (concat (map f [0..<m])) = m * c"
  by (induction m) simp_all

lemma chunk_of_concat:
  assumes "\<And>j. j < m \<Longrightarrow> length (f j) = k" and "i < m"
  shows "take k (drop (i * k) (concat (map f [0..<m]))) = f i"
  using assms
proof (induction m)
  case 0
  then show ?case by simp
next
  case (Suc m)
  have len: "length (concat (map f [0..<m])) = m * k"
    using Suc.prems(1) by (intro length_concat_upt) simp
  show ?case
  proof (cases "i < m")
    case True
    then have "i * k + k \<le> m * k"
      by (metis Suc_leI mult_Suc mult_le_mono1 add.commute)
    with Suc.IH [OF _ True] Suc.prems(1) len show ?thesis
      by (simp add: take_add)
  next
    case False
    with Suc.prems(2) have "i = m" by simp
    with Suc.prems(1) [of m] len show ?thesis by simp
  qed
qed

lemma chunk_of_replicate:
  assumes "length z = k" and "i < m"
  shows "take k (drop (i * k) (concat (replicate m z))) = z"
proof -
  have "replicate m z = map (\<lambda>i. z) [0..<m]"
    by (simp add: map_replicate_trivial)
  then show ?thesis
    using chunk_of_concat [of m "\<lambda>i. z" k i] assms by simp
qed

lemma zip_concat_upt:
  "(\<And>i. i < m \<Longrightarrow> length (f i) = length (g i)) \<Longrightarrow>
     zip (concat (map f [0..<m])) (concat (map g [0..<m]))
       = concat (map (\<lambda>i. zip (f i) (g i)) [0..<m])"
proof (induction m)
  case 0
  then show ?case by simp
next
  case (Suc m)
  have "length (concat (map f [0..<m])) = length (concat (map g [0..<m]))"
    using Suc.prems by (induction m) simp_all
  with Suc show ?case by simp
qed

lemma zip_concat_replicate:
  "length x = length y \<Longrightarrow>
     zip (concat (replicate n x)) (concat (replicate n y)) = concat (replicate n (zip x y))"
  by (induction n) simp_all

lemma chunk_length:
  "length xs = m * k \<Longrightarrow> i < m \<Longrightarrow> length (take k (drop (i * k) xs)) = k"
proof -
  assume a: "length xs = m * k" "i < m"
  then have "i * k + k \<le> m * k"
    by (metis Suc_leI mult_Suc mult_le_mono1 add.commute)
  with a show ?thesis by simp
qed

lemma length_expand:
  "fits ms ns \<Longrightarrow> length xs = prod_list ms \<Longrightarrow> length (expand ms ns xs) = prod_list ns"
proof (induction ms ns xs rule: expand.induct)
  case (1 m ms n ns xs)
  from "1.prems"(1) have mn: "m = n \<or> m = 1" and f: "fits ms ns" by simp_all
  show ?case
  proof (cases "m = n")
    case True
    have "length (expand ms ns (take (prod_list ms) (drop (i * prod_list ms) xs))) = prod_list ns"
      if "i < m" for i
    proof -
      have "length (take (prod_list ms) (drop (i * prod_list ms) xs)) = prod_list ms"
        using "1.prems"(2) that by (intro chunk_length [of _ m]) simp_all
      moreover have "i \<in> set [0..<m]" using that by simp
      ultimately show ?thesis using "1.IH"(1) [OF True _ f] by blast
    qed
    then show ?thesis using True by (simp add: length_concat_upt)
  next
    case False
    with mn have m: "m = 1" by simp
    with "1.IH"(2) [OF False f] "1.prems"(2) have "length (expand ms ns xs) = prod_list ns"
      by simp
    with False show ?thesis by (simp add: length_concat sum_list_replicate)
  qed
qed simp_all

lemma concat_map_upt_cong:
  "(\<And>i. i < m \<Longrightarrow> f i = g i) \<Longrightarrow> concat (map f [0..<m]) = concat (map g [0..<m])"
  by (rule arg_cong [where f = concat], rule map_cong) simp_all

lemma expand_same: "length xs = prod_list ms \<Longrightarrow> expand ms ms xs = xs"
proof (induction ms arbitrary: xs)
  case Nil
  then show ?case by simp
next
  case (Cons m ms)
  let ?k = "prod_list ms"
  have step: "expand ms ms (take ?k (drop (i * ?k) xs)) = take ?k (drop (i * ?k) xs)"
    if "i < m" for i
    using Cons.prems that by (intro Cons.IH chunk_length [of _ m]) simp_all
  have "expand (m # ms) (m # ms) xs
      = concat (map (\<lambda>i. expand ms ms (take ?k (drop (i * ?k) xs))) [0..<m])"
    by simp
  also have "\<dots> = concat (map (\<lambda>i. take ?k (drop (i * ?k) xs)) [0..<m])"
    by (rule concat_map_upt_cong) (rule step)
  also have "\<dots> = xs"
    using Cons.prems by (simp add: concat_chunks)
  finally show ?case .
qed

lemma expand_map: "expand ms ns (map f xs) = map f (expand ms ns xs)"
proof (induction ms ns xs rule: expand.induct)
  case (1 m ms n ns xs)
  let ?k = "prod_list ms"
  show ?case
  proof (cases "m = n")
    case True
    have "expand (m # ms) (n # ns) (map f xs)
        = concat (map (\<lambda>i. expand ms ns (take ?k (drop (i * ?k) (map f xs)))) [0..<m])"
      using True by simp
    also have "\<dots> = concat (map (\<lambda>i. map f (expand ms ns (take ?k (drop (i * ?k) xs)))) [0..<m])"
      by (rule concat_map_upt_cong) (use "1.IH"(1) [OF True] in \<open>simp add: take_map drop_map\<close>)
    also have "\<dots> = map f (expand (m # ms) (n # ns) xs)"
      using True by (simp add: map_concat o_def)
    finally show ?thesis .
  next
    case False
    then show ?thesis using "1.IH"(2) by (simp add: map_concat)
  qed
qed simp_all

lemma expand_zip:
  "fits ms ns \<Longrightarrow> length xs = prod_list ms \<Longrightarrow> length ys = prod_list ms \<Longrightarrow>
     expand ms ns (zip xs ys) = zip (expand ms ns xs) (expand ms ns ys)"
proof (induction ms ns xs arbitrary: ys rule: expand.induct)
  case (1 m ms n ns xs)
  from "1.prems"(1) have mn: "m = n \<or> m = 1" and f: "fits ms ns" by simp_all
  let ?k = "prod_list ms"
  show ?case
  proof (cases "m = n")
    case True
    have cx: "length (take ?k (drop (i * ?k) xs)) = ?k" if "i < m" for i
      using "1.prems"(2) that by (intro chunk_length [of _ m]) simp_all
    have cy: "length (take ?k (drop (i * ?k) ys)) = ?k" if "i < m" for i
      using "1.prems"(3) that by (intro chunk_length [of _ m]) simp_all
    have step: "expand ms ns (take ?k (drop (i * ?k) (zip xs ys)))
        = zip (expand ms ns (take ?k (drop (i * ?k) xs))) (expand ms ns (take ?k (drop (i * ?k) ys)))"
      if "i < m" for i
    proof -
      have "i \<in> set [0..<m]" using that by simp
      from "1.IH"(1) [OF True this f cx [OF that] cy [OF that]]
      show ?thesis by (simp add: take_zip drop_zip)
    qed
    have len: "length (expand ms ns (take ?k (drop (i * ?k) xs)))
        = length (expand ms ns (take ?k (drop (i * ?k) ys)))" if "i < m" for i
      using length_expand [OF f cx [OF that]] length_expand [OF f cy [OF that]] by simp
    have "expand (m # ms) (n # ns) (zip xs ys)
        = concat (map (\<lambda>i. expand ms ns (take ?k (drop (i * ?k) (zip xs ys)))) [0..<m])"
      using True by simp
    also have "\<dots> = concat (map (\<lambda>i. zip (expand ms ns (take ?k (drop (i * ?k) xs)))
                        (expand ms ns (take ?k (drop (i * ?k) ys)))) [0..<m])"
      by (rule concat_map_upt_cong) (rule step)
    also have "\<dots> = zip (concat (map (\<lambda>i. expand ms ns (take ?k (drop (i * ?k) xs))) [0..<m]))
                       (concat (map (\<lambda>i. expand ms ns (take ?k (drop (i * ?k) ys))) [0..<m]))"
      by (rule zip_concat_upt [symmetric]) (rule len)
    also have "\<dots> = zip (expand (m # ms) (n # ns) xs) (expand (m # ms) (n # ns) ys)"
      using True by simp
    finally show ?thesis .
  next
    case False
    with mn have m: "m = 1" by simp
    have lx: "length xs = ?k" and ly: "length ys = ?k" using "1.prems" m by simp_all
    have "expand ms ns (zip xs ys) = zip (expand ms ns xs) (expand ms ns ys)"
      by (rule "1.IH"(2) [OF False f lx ly])
    moreover have "length (expand ms ns xs) = length (expand ms ns ys)"
      using length_expand [OF f lx] length_expand [OF f ly] by simp
    ultimately show ?thesis using False by (simp add: zip_concat_replicate)
  qed
qed simp_all

lemma expand_map2:
  assumes "fits ms ns" and "length xs = prod_list ms" and "length ys = prod_list ms"
  shows "expand ms ns (map2 f xs ys) = map2 f (expand ms ns xs) (expand ms ns ys)"
  by (simp add: expand_map expand_zip [OF assms])

lemma expand_expand:
  fixes xs :: "'a list"
  shows "fits as bs \<Longrightarrow> fits bs cs \<Longrightarrow> length xs = prod_list as \<Longrightarrow>
     expand bs cs (expand as bs xs) = expand as cs xs"
proof (induction as arbitrary: bs cs xs)
  case Nil
  then show ?case by simp
next
  case (Cons a as)
  from Cons.prems(1) obtain b bs' where bs: "bs = b # bs'" and ab: "a = b \<or> a = 1"
    and f1: "fits as bs'"
    by (auto simp: list_all2_Cons1)
  from Cons.prems(2) bs obtain c cs' where cs: "cs = c # cs'" and bc: "b = c \<or> b = 1"
    and f2: "fits bs' cs'"
    by (auto simp: list_all2_Cons1)
  let ?ka = "prod_list as" and ?kb = "prod_list bs'"
  have IH: "expand bs' cs' (expand as bs' ys) = expand as cs' ys" if "length ys = ?ka"
    for ys :: "'a list"
    by (rule Cons.IH [OF f1 f2 that])
  have lb: "length (expand as bs' ys) = ?kb" if "length ys = ?ka" for ys
    using f1 that by (rule length_expand)
  have cx: "length (take ?ka (drop (i * ?ka) xs)) = ?ka" if "i < a" for i
    using Cons.prems(3) that by (intro chunk_length [of _ a]) simp_all
  show ?case
  proof (cases "a = b")
    case True
    let ?y = "concat (map (\<lambda>i. expand as bs' (take ?ka (drop (i * ?ka) xs))) [0..<a])"
    have y: "expand (a # as) (b # bs') xs = ?y" using True by simp
    show ?thesis
    proof (cases "b = c")
      case bc': True
      have "expand (b # bs') (c # cs') ?y
          = concat (map (\<lambda>i. expand bs' cs' (take ?kb (drop (i * ?kb) ?y))) [0..<a])"
        using True bc' by simp
      also have "\<dots> = concat (map (\<lambda>i. expand as cs' (take ?ka (drop (i * ?ka) xs))) [0..<a])"
      proof (rule concat_map_upt_cong)
        fix i assume i: "i < a"
        have "take ?kb (drop (i * ?kb) ?y) = expand as bs' (take ?ka (drop (i * ?ka) xs))"
          by (rule chunk_of_concat [OF _ i]) (rule lb, rule cx)
        then show "expand bs' cs' (take ?kb (drop (i * ?kb) ?y))
            = expand as cs' (take ?ka (drop (i * ?ka) xs))"
          using IH [OF cx [OF i]] by simp
      qed
      also have "\<dots> = expand (a # as) (c # cs') xs"
        using True bc' by simp
      finally show ?thesis by (simp only: bs cs y)
    next
      case bc': False
      with bc True have a1: "a = 1" and b1: "b = 1" by simp_all
      have lx: "length xs = ?ka" using Cons.prems(3) a1 by simp
      have "?y = expand as bs' xs" using a1 lx by simp
      moreover have "expand (b # bs') (c # cs') (expand as bs' xs)
          = concat (replicate c (expand as cs' xs))"
        using bc' IH [OF lx] by simp
      moreover have "expand (a # as) (c # cs') xs = concat (replicate c (expand as cs' xs))"
        using bc' True by simp
      ultimately show ?thesis by (simp only: bs cs y)
    qed
  next
    case False
    with ab have a1: "a = 1" by simp
    have lx: "length xs = ?ka" using Cons.prems(3) a1 by simp
    let ?z = "expand as bs' xs"
    have y: "expand (a # as) (b # bs') xs = concat (replicate b ?z)" using False by simp
    from False a1 bc have bc': "b = c" by simp
    have "expand (b # bs') (c # cs') (concat (replicate b ?z))
        = concat (map (\<lambda>i. expand bs' cs' (take ?kb (drop (i * ?kb) (concat (replicate b ?z))))) [0..<b])"
      using bc' by simp
    also have "\<dots> = concat (map (\<lambda>i. expand as cs' xs) [0..<b])"
    proof (rule concat_map_upt_cong)
      fix i assume i: "i < b"
      have "take ?kb (drop (i * ?kb) (concat (replicate b ?z))) = ?z"
        by (rule chunk_of_replicate [OF lb [OF lx] i])
      then show "expand bs' cs' (take ?kb (drop (i * ?kb) (concat (replicate b ?z)))) = expand as cs' xs"
        using IH [OF lx] by simp
    qed
    also have "\<dots> = expand (a # as) (c # cs') xs"
      using False bc' by (simp add: map_replicate_trivial)
    finally show ?thesis by (simp only: bs cs y)
  qed
qed

lemma expand_ones:
  "length xs = prod_list ms \<Longrightarrow>
     expand (replicate k 1 @ ms) (replicate k 1 @ ns) xs = expand ms ns xs"
  by (induction k) simp_all

lemma prod_list_pad_shape [simp]: "prod_list (pad_shape r s) = prod_list s"
  by (simp add: pad_shape_def)

lemma length_broadcast_to:
  "broadcasts_to s t \<Longrightarrow> length xs = prod_list s \<Longrightarrow> length (broadcast_to s t xs) = prod_list t"
  unfolding broadcasts_to_def broadcast_to_def
  by (rule length_expand) simp_all

lemma broadcast_to_same: "length xs = prod_list s \<Longrightarrow> broadcast_to s s xs = xs"
  by (simp add: broadcast_to_def expand_same)

lemma broadcast_to_map2:
  "broadcasts_to s t \<Longrightarrow> length xs = prod_list s \<Longrightarrow> length ys = prod_list s \<Longrightarrow>
     broadcast_to s t (map2 f xs ys) = map2 f (broadcast_to s t xs) (broadcast_to s t ys)"
  unfolding broadcasts_to_def broadcast_to_def
  by (rule expand_map2) simp_all

lemma broadcast_to_trans:
  assumes "broadcasts_to a b" and "broadcasts_to b c" and "length xs = prod_list a"
  shows "broadcast_to b c (broadcast_to a b xs) = broadcast_to a c xs"
proof -
  have ab: "length a \<le> length b" and bc: "length b \<le> length c"
    using assms by (auto dest: broadcasts_to_length)
  let ?k = "length c - length b"
  have pa: "pad_shape (length c) a = replicate ?k 1 @ pad_shape (length b) a"
    using ab bc by (rule pad_shape_pad)
  have pb: "pad_shape (length c) b = replicate ?k 1 @ b"
    by (simp add: pad_shape_def)
  have "expand (pad_shape (length b) a) b xs
      = expand (pad_shape (length c) a) (pad_shape (length c) b) xs"
    unfolding pa pb by (rule expand_ones [symmetric]) (simp add: assms(3))
  moreover have "expand (pad_shape (length c) b) c
        (expand (pad_shape (length c) a) (pad_shape (length c) b) xs)
      = expand (pad_shape (length c) a) c xs"
    using broadcasts_to_padded [OF assms(1) bc] assms(2) [unfolded broadcasts_to_def] assms(3)
    by (intro expand_expand) simp_all
  ultimately show ?thesis by (simp add: broadcast_to_def)
qed

subsection \<open>Merged shapes\<close>

lemma broadcast_shapes_iff:
  assumes "max (length a) (length b) \<le> r"
  shows "broadcast_shapes a b \<noteq> None \<longleftrightarrow> agree (pad_shape r a) (pad_shape r b)"
proof -
  let ?r0 = "max (length a) (length b)"
  have pa: "pad_shape r a = replicate (r - ?r0) 1 @ pad_shape ?r0 a"
    by (rule pad_shape_pad) (use assms in simp_all)
  have pb: "pad_shape r b = replicate (r - ?r0) 1 @ pad_shape ?r0 b"
    by (rule pad_shape_pad) (use assms in simp_all)
  have "agree (pad_shape r a) (pad_shape r b) \<longleftrightarrow> agree (pad_shape ?r0 a) (pad_shape ?r0 b)"
    unfolding pa pb by (simp add: list_all2_append list_all2_same)
  then show ?thesis by (simp add: broadcast_shapes_def Let_def)
qed

lemma pad_shape_merge_shapes:
  assumes "max (length a) (length b) \<le> r"
  shows "pad_shape r (merge_shapes a b)
    = map2 (\<lambda>m n. if m = 1 then n else m) (pad_shape r a) (pad_shape r b)"
proof -
  let ?r0 = "max (length a) (length b)"
  have pa: "pad_shape r a = replicate (r - ?r0) 1 @ pad_shape ?r0 a"
    by (rule pad_shape_pad) (use assms in simp_all)
  have pb: "pad_shape r b = replicate (r - ?r0) 1 @ pad_shape ?r0 b"
    by (rule pad_shape_pad) (use assms in simp_all)
  have "map2 (\<lambda>m n. if m = 1 then n else m) (replicate k (1::nat)) (replicate k 1) = replicate k 1"
    for k by (induction k) simp_all
  then show ?thesis
    unfolding pa pb
    by (simp add: pad_shape_def [of r] length_merge_shapes merge_shapes_def Let_def zip_append)
qed

lemma merge_shapes_agrees:
  assumes "broadcast_shapes a c \<noteq> None" and "broadcast_shapes b c \<noteq> None"
  shows "broadcast_shapes (merge_shapes a b) c \<noteq> None"
proof -
  let ?r = "max (max (length a) (length b)) (length c)"
  let ?pa = "pad_shape ?r a" and ?pb = "pad_shape ?r b" and ?pc = "pad_shape ?r c"
  have ac: "agree ?pa ?pc"
    using assms(1) by (subst (asm) broadcast_shapes_iff [of _ _ ?r]) simp_all
  have bc: "agree ?pb ?pc"
    using assms(2) by (subst (asm) broadcast_shapes_iff [of _ _ ?r]) simp_all
  have pm: "pad_shape ?r (merge_shapes a b) = map2 (\<lambda>m n. if m = 1 then n else m) ?pa ?pb"
    by (rule pad_shape_merge_shapes) simp
  have "agree (pad_shape ?r (merge_shapes a b)) ?pc"
  proof (rule list_all2_all_nthI)
    show "length (pad_shape ?r (merge_shapes a b)) = length ?pc"
      by (simp add: length_pad_shape length_merge_shapes)
  next
    fix i assume "i < length (pad_shape ?r (merge_shapes a b))"
    then have i: "i < ?r" by (simp add: length_pad_shape length_merge_shapes)
    then have ia: "i < length ?pa" and ib: "i < length ?pb" by simp_all
    from list_all2_nthD [OF ac ia] list_all2_nthD [OF bc ib]
    show "pad_shape ?r (merge_shapes a b) ! i = ?pc ! i
        \<or> pad_shape ?r (merge_shapes a b) ! i = 1 \<or> ?pc ! i = 1"
      unfolding pm using ia ib by auto
  qed
  then show ?thesis
    by (subst broadcast_shapes_iff [of _ _ ?r]) (simp_all add: length_merge_shapes)
qed

lemma broadcast_shapes_merge:
  "broadcast_shapes a b \<noteq> None \<Longrightarrow> broadcast_shapes a b = Some (merge_shapes a b)"
  by (simp add: broadcast_shapes_def Let_def split: if_splits)

lemma foldl_merge_shapes_bound:
  assumes "\<forall>s \<in> set ss. broadcast_shapes a s \<noteq> None"
    and "\<forall>s \<in> set ss. \<forall>t \<in> set ss. broadcast_shapes s t \<noteq> None"
  shows "broadcasts_to a (foldl merge_shapes a ss)
    \<and> (\<forall>s \<in> set ss. broadcasts_to s (foldl merge_shapes a ss))"
  using assms
proof (induction ss arbitrary: a)
  case Nil
  then show ?case by (simp add: broadcasts_to_refl)
next
  case (Cons s ss)
  let ?a' = "merge_shapes a s"
  have "broadcast_shapes a s = Some ?a'"
    using Cons.prems(1) by (intro broadcast_shapes_merge) simp
  from broadcast_shapes_Some(2,3) [OF this]
  have a: "broadcasts_to a ?a'" and s: "broadcasts_to s ?a'" .
  have "\<forall>t \<in> set ss. broadcast_shapes ?a' t \<noteq> None"
  proof
    fix t assume t: "t \<in> set ss"
    have "broadcast_shapes a t \<noteq> None" using Cons.prems(1) t by simp
    moreover have "broadcast_shapes s t \<noteq> None" using Cons.prems(2) t by simp
    ultimately show "broadcast_shapes ?a' t \<noteq> None" by (rule merge_shapes_agrees)
  qed
  moreover have "\<forall>u \<in> set ss. \<forall>t \<in> set ss. broadcast_shapes u t \<noteq> None"
    using Cons.prems(2) by simp
  ultimately have IH: "broadcasts_to ?a' (foldl merge_shapes ?a' ss)
      \<and> (\<forall>t \<in> set ss. broadcasts_to t (foldl merge_shapes ?a' ss))"
    by (rule Cons.IH)
  then show ?case using a s by (auto intro: broadcasts_to_trans)
qed

lemma merge_shapes_Nil [simp]: "merge_shapes [] s = s"
proof -
  have "map2 (\<lambda>m n. if m = 1 then n else m) (replicate (length s) (1::nat)) s = s"
    by (induction s) simp_all
  then show ?thesis by (simp add: merge_shapes_def pad_shape_def)
qed

subsection \<open>The accumulated value\<close>

lemma map2_nth:
  "length xs = n \<Longrightarrow> length ys = n \<Longrightarrow> map2 f xs ys = map (\<lambda>j. f (xs ! j) (ys ! j)) [0..<n]"
  by (auto simp: list_eq_iff_nth_eq)

lemma add_all_elementwise:
  fixes xa :: "'a::comm_monoid_add list"
  assumes "length xa = prod_list a"
    and "\<forall>t \<in> set ts. has_dtype d t \<and> well_formed t"
    and "\<forall>t \<in> set ts. broadcast_shapes a (shape_of t) \<noteq> None"
    and "\<forall>t \<in> set ts. \<forall>u \<in> set ts. broadcast_shapes (shape_of t) (shape_of u) \<noteq> None"
  shows "add_all (DenseTensor d a xa) ts =
    Inr (DenseTensor d (foldl merge_shapes a (map shape_of ts))
      (map (\<lambda>j. broadcast_to a (foldl merge_shapes a (map shape_of ts)) xa ! j
                + sum_list (map (\<lambda>u. broadcast_to (shape_of u)
                      (foldl merge_shapes a (map shape_of ts)) (data_of u) ! j) ts))
           [0..<prod_list (foldl merge_shapes a (map shape_of ts))]))"
  using assms
proof (induction ts arbitrary: a xa)
  case Nil
  have "map ((!) xa) [0..<length xa] = xa" by (rule map_nth)
  with Nil show ?case by (simp add: broadcast_to_same)
next
  case (Cons t ts)
  from Cons.prems(2) obtain s x where t: "t = DenseTensor d s x" and x: "length x = prod_list s"
    by (cases t) auto
  let ?a' = "merge_shapes a s"
  let ?xa' = "map2 (+) (broadcast_to a ?a' xa) (broadcast_to s ?a' x)"
  let ?r = "foldl merge_shapes ?a' (map shape_of ts)"
  have bs: "broadcast_shapes a s = Some ?a'"
    using Cons.prems(3) t by (intro broadcast_shapes_merge) simp
  from broadcast_shapes_Some(2,3) [OF bs]
  have aa': "broadcasts_to a ?a'" and sa': "broadcasts_to s ?a'" .
  have la: "length (broadcast_to a ?a' xa) = prod_list ?a'"
    using aa' Cons.prems(1) by (rule length_broadcast_to)
  have ls: "length (broadcast_to s ?a' x) = prod_list ?a'"
    using sa' x by (rule length_broadcast_to)
  have lxa': "length ?xa' = prod_list ?a'" using la ls by simp
  have step: "tensor_add (DenseTensor d a xa) t = Inr (DenseTensor d ?a' ?xa')"
    using bs t by simp
  have c1: "\<forall>u \<in> set ts. has_dtype d u \<and> well_formed u" using Cons.prems(2) by simp
  have c2: "\<forall>u \<in> set ts. broadcast_shapes ?a' (shape_of u) \<noteq> None"
  proof
    fix u assume u: "u \<in> set ts"
    have "broadcast_shapes a (shape_of u) \<noteq> None" using Cons.prems(3) u by simp
    moreover have "broadcast_shapes s (shape_of u) \<noteq> None" using Cons.prems(4) u t by simp
    ultimately show "broadcast_shapes ?a' (shape_of u) \<noteq> None" by (rule merge_shapes_agrees)
  qed
  have c3: "\<forall>v \<in> set ts. \<forall>u \<in> set ts. broadcast_shapes (shape_of v) (shape_of u) \<noteq> None"
    using Cons.prems(4) by simp
  have a'r: "broadcasts_to ?a' ?r"
    using foldl_merge_shapes_bound [of "map shape_of ts" ?a'] c2 c3 by simp
  have "broadcast_to ?a' ?r ?xa'
      = map2 (+) (broadcast_to ?a' ?r (broadcast_to a ?a' xa))
                 (broadcast_to ?a' ?r (broadcast_to s ?a' x))"
    using a'r la ls by (rule broadcast_to_map2)
  also have "\<dots> = map2 (+) (broadcast_to a ?r xa) (broadcast_to s ?r x)"
    by (simp add: broadcast_to_trans [OF aa' a'r Cons.prems(1)] broadcast_to_trans [OF sa' a'r x])
  also have "\<dots> = map (\<lambda>j. broadcast_to a ?r xa ! j + broadcast_to s ?r x ! j) [0..<prod_list ?r]"
    by (rule map2_nth)
      (simp_all add: length_broadcast_to broadcasts_to_trans [OF aa' a'r]
        broadcasts_to_trans [OF sa' a'r] Cons.prems(1) x)
  finally have xa'r: "broadcast_to ?a' ?r ?xa'
      = map (\<lambda>j. broadcast_to a ?r xa ! j + broadcast_to s ?r x ! j) [0..<prod_list ?r]" .
  have "add_all (DenseTensor d a xa) (t # ts) = add_all (DenseTensor d ?a' ?xa') ts"
    using step by simp
  also have "\<dots> = Inr (DenseTensor d ?r
      (map (\<lambda>j. broadcast_to ?a' ?r ?xa' ! j
                + sum_list (map (\<lambda>u. broadcast_to (shape_of u) ?r (data_of u) ! j) ts))
           [0..<prod_list ?r]))"
    using lxa' c1 c2 c3 by (rule Cons.IH)
  also have "map (\<lambda>j. broadcast_to ?a' ?r ?xa' ! j
                + sum_list (map (\<lambda>u. broadcast_to (shape_of u) ?r (data_of u) ! j) ts))
           [0..<prod_list ?r]
      = map (\<lambda>j. broadcast_to a ?r xa ! j
                + sum_list (map (\<lambda>u. broadcast_to (shape_of u) ?r (data_of u) ! j) (t # ts)))
           [0..<prod_list ?r]"
    unfolding xa'r by (rule map_cong) (simp_all add: t add.assoc)
  finally show ?case by (simp add: t)
qed

lemma accumulate_compatible:
  fixes slot :: "'a::comm_monoid_add Tensor list"
  assumes "compatible slot"
  shows "accumulate slot = Inr (elementwise_sum slot)"
proof (cases slot)
  case Nil
  then show ?thesis by simp
next
  case (Cons t us)
  from assms have wf: "\<forall>u \<in> set slot. well_formed u"
    and comb: "\<forall>u \<in> set slot. \<forall>v \<in> set slot. combinable u v"
    by (simp_all add: compatible_def list_all_iff)
  from wf Cons obtain d s xs where t: "t = DenseTensor d s xs" and xs: "length xs = prod_list s"
    by (cases t) auto
  have dense: "has_dtype d u \<and> well_formed u \<and> broadcast_shapes s (shape_of u) \<noteq> None"
    if "u \<in> set us" for u
  proof -
    from comb Cons that have "combinable t u" by simp
    moreover from wf Cons that have "well_formed u" by simp
    ultimately show ?thesis using t by (cases u) auto
  qed
  have pair: "broadcast_shapes (shape_of u) (shape_of v) \<noteq> None"
    if "u \<in> set us" "v \<in> set us" for u v
  proof -
    from comb Cons that have "combinable u v" by simp
    then show ?thesis by (cases u; cases v) auto
  qed
  have "add_all (DenseTensor d s xs) us =
    Inr (DenseTensor d (foldl merge_shapes s (map shape_of us))
      (map (\<lambda>j. broadcast_to s (foldl merge_shapes s (map shape_of us)) xs ! j
                + sum_list (map (\<lambda>u. broadcast_to (shape_of u)
                      (foldl merge_shapes s (map shape_of us)) (data_of u) ! j) us))
           [0..<prod_list (foldl merge_shapes s (map shape_of us))]))"
    using xs dense pair by (intro add_all_elementwise) auto
  then show ?thesis
    by (simp add: Cons t joint_shape_def Let_def)
qed


lemma column_and_row_compatible:
  "compatible [DenseTensor FLOAT32 [2, 1] [1, 2 :: int], DenseTensor FLOAT32 [3] [10, 20, 30]]"
  by code_simp

lemma column_and_row_sum:
  "elementwise_sum [DenseTensor FLOAT32 [2, 1] [1, 2 :: int], DenseTensor FLOAT32 [3] [10, 20, 30]]
     = DenseTensor FLOAT32 [2, 3] [11, 21, 31, 12, 22, 32]"
  by code_simp



text \<open>
  For gradients of one shape nothing is broadcast: the element of the sum at a
  position is the sum of the elements the gradients have there.
\<close>

lemma merge_shapes_same [simp]: "merge_shapes s s = s"
proof -
  have "map2 (\<lambda>m n. if m = 1 then n else m) s s = s"
    by (induction s) simp_all
  then show ?thesis by (simp add: merge_shapes_def)
qed

lemma foldl_merge_shapes_same:
  "set ss \<subseteq> {s} \<Longrightarrow> foldl merge_shapes s ss = s"
  by (induction ss) simp_all

lemma elementwise_sum_same_shape:
  fixes us :: "'a::comm_monoid_add Tensor list"
  assumes "length xs = prod_list s"
    and "\<forall>u \<in> set us. shape_of u = s \<and> well_formed u"
  shows "elementwise_sum (DenseTensor d s xs # us)
    = DenseTensor d s
        (map (\<lambda>j. sum_list (map (\<lambda>u. data_of u ! j) (DenseTensor d s xs # us)))
             [0..<prod_list s])"
proof -
  let ?ts = "DenseTensor d s xs # us"
  have "set (map shape_of us) \<subseteq> {s}" using assms(2) by auto
  then have "foldl merge_shapes s (map shape_of us) = s"
    by (rule foldl_merge_shapes_same)
  then have js: "joint_shape (map shape_of ?ts) = s"
    by (simp add: joint_shape_def)
  have same: "broadcast_to (shape_of u) s (data_of u) = data_of u" if "u \<in> set ?ts" for u
  proof (cases u)
    case EmptyTensor
    with that assms(2) show ?thesis by auto
  next
    case (DenseTensor d' s' xs')
    with that assms have "s' = s" "length xs' = prod_list s" by auto
    with DenseTensor show ?thesis by (simp add: broadcast_to_same)
  qed
  have "map (\<lambda>u. broadcast_to (shape_of u) s (data_of u) ! j) ?ts
      = map (\<lambda>u. data_of u ! j) ?ts" for j
    by (rule map_cong [OF refl]) (simp only: same)
  then have "elementwise_sum ?ts = DenseTensor d s
        (map (\<lambda>j. sum_list (map (\<lambda>u. data_of u ! j) ?ts)) [0..<prod_list s])"
    by (simp only: elementwise_sum.simps Let_def js)
  then show ?thesis .
qed

text \<open>
  C1, as the model has it: on a node whose \<open>is_fake_empty\<close> is unset and that has
  no retain-grad transform, an invocation with one input slot of compatible gradients,
  whose hooks return, returns the elementwise sum of the gradients in its one output
  slot: the empty result for no gradient, the gradient itself for one.
\<close>

theorem accumulation_is_elementwise_sum:
  fixes slot :: "'a::comm_monoid_add Tensor list"
  assumes "\<not> is_fake_empty n" and "retain_grad_hook n = None"
    and "compatible slot"
    and "fst (ApplyReduceHooks n (elementwise_sum slot) w) = Inr ()"
  shows "fst (operator_call n [slot] create_graph is_new_grad w) = Inr [[elementwise_sum slot]]
    \<and> (slot = [] \<longrightarrow>
         fst (operator_call n [slot] create_graph is_new_grad w) = Inr [[EmptyTensor]])
    \<and> (\<forall>t. slot = [t] \<longrightarrow>
         fst (operator_call n [slot] create_graph is_new_grad w) = Inr [[t]])"
proof -
  have acc: "accumulate slot = Inr (elementwise_sum slot)"
    using assms(3) by (rule accumulate_compatible)
  obtain r w2 where h: "ApplyReduceHooks n (elementwise_sum slot) w = (r, w2)"
    by (cases "ApplyReduceHooks n (elementwise_sum slot) w")
  with assms(4) have r: "r = Inr ()" by simp
  have main: "fst (operator_call n [slot] create_graph is_new_grad w)
      = Inr [[elementwise_sum slot]]"
    using assms(1,2) acc h r
    by (simp add: operator_call_def apply_retain_grad_hook_def del: accumulate.simps)
  have one: "elementwise_sum slot = t" if "slot = [t]" for t
    using acc that by simp
  show ?thesis using main one by auto
qed

theorem accumulation_is_elementwise_sum_witness:
  "compatible [DenseTensor FLOAT32 [2, 1] [1, 2 :: int], DenseTensor FLOAT32 [3] [10, 20, 30]]
   \<and> fst (operator_call
        (fst (run_calls (GradNodeAccumulation_init None 0 [], [])
           [Call_RegisterReduceHook (recording_hook 1), Call_SetFakeEmpty False]))
        [[DenseTensor FLOAT32 [2, 1] [1, 2 :: int], DenseTensor FLOAT32 [3] [10, 20, 30]]]
        False True [])
     = Inr [[DenseTensor FLOAT32 [2, 3] [11, 21, 31, 12, 22, 32]]]"
proof -
  let ?n = "fst (run_calls (GradNodeAccumulation_init None 0 [] :: (int, int event list) GradNodeAccumulation, [])
           [Call_RegisterReduceHook (recording_hook 1), Call_SetFakeEmpty False])"
  have n: "?n = SetFakeEmpty (RegisterReduceHook (GradNodeAccumulation_init None 0 []) (recording_hook 1)) False"
    by (simp add: run_calls_def)
  have a: "\<not> is_fake_empty ?n"
    unfolding n by (simp add: SetFakeEmpty_def)
  have b: "retain_grad_hook ?n = None"
    by (rule retain_grad_hook_never_set)
  have c: "fst (ApplyReduceHooks ?n (elementwise_sum
      [DenseTensor FLOAT32 [2, 1] [1, 2 :: int], DenseTensor FLOAT32 [3] [10, 20, 30]]) []) = Inr ()"
    unfolding n
    by (simp add: ApplyReduceHooks_def SetFakeEmpty_def RegisterReduceHook_def init_fields
        recording_hook_def del: elementwise_sum.simps)
  have "fst (operator_call ?n
        [[DenseTensor FLOAT32 [2, 1] [1, 2 :: int], DenseTensor FLOAT32 [3] [10, 20, 30]]]
        False True [])
     = Inr [[DenseTensor FLOAT32 [2, 3] [11, 21, 31, 12, 22, 32]]]"
    using accumulation_is_elementwise_sum [OF a b column_and_row_compatible c, of False True,
        THEN conjunct1]
    unfolding column_and_row_sum .
  with column_and_row_compatible show ?thesis by (rule conjI)
qed

text \<open>
  C1 as the specification states it, for every invocation on a node whose
  \<open>is_fake_empty\<close> is unset, fails: with a retain-grad transform the value returned
  is the result of the transform, not the sum; and a hook that raises makes the
  invocation an error, also for no gradient at all.
\<close>

theorem accumulation_output_counterexample:
  "operator_call ((GradNodeAccumulation_init None 0 [])
        \<lparr>retain_grad_hook := Some (recording_retain as_float64)\<rparr>)
     [[DenseTensor FLOAT32 [2, 2] [1, 1, 1, 1 :: int], DenseTensor FLOAT32 [2, 2] [2, 2, 2, 2]]]
     False True []
   = (Inr [[DenseTensor FLOAT64 [2, 2] [3, 3, 3, 3]]],
      [RetainGradApplied (DenseTensor FLOAT32 [2, 2] [3, 3, 3, 3])])
   \<and> elementwise_sum
       [DenseTensor FLOAT32 [2, 2] [1, 1, 1, 1 :: int], DenseTensor FLOAT32 [2, 2] [2, 2, 2, 2]]
     = DenseTensor FLOAT32 [2, 2] [3, 3, 3, 3]
   \<and> operator_call (RegisterReduceHook (GradNodeAccumulation_init None 0 []) raising_hook)
       [[] :: int Tensor list] False True ([] :: int event list)
     = (Inl (HookFailure ''hook''), [])"
proof -
  have s: "elementwise_sum
       [DenseTensor FLOAT32 [2, 2] [1, 1, 1, 1 :: int], DenseTensor FLOAT32 [2, 2] [2, 2, 2, 2]]
     = DenseTensor FLOAT32 [2, 2] [3, 3, 3, 3]"
    by code_simp
  have t: "operator_call ((GradNodeAccumulation_init None 0 [])
        \<lparr>retain_grad_hook := Some (recording_retain as_float64)\<rparr>)
     [[DenseTensor FLOAT32 [2, 2] [1, 1, 1, 1 :: int], DenseTensor FLOAT32 [2, 2] [2, 2, 2, 2]]]
     False True []
   = (Inr [[DenseTensor FLOAT64 [2, 2] [3, 3, 3, 3]]],
      [RetainGradApplied (DenseTensor FLOAT32 [2, 2] [3, 3, 3, 3])])"
    by (simp add: operator_call_def ones_plus_twos init_fields apply_retain_grad_hook_def
        recording_retain_def ApplyReduceHooks_def del: accumulate.simps)
  have h: "operator_call (RegisterReduceHook (GradNodeAccumulation_init None 0 []) raising_hook)
       [[] :: int Tensor list] False True ([] :: int event list)
     = (Inl (HookFailure ''hook''), [])"
    by (simp add: operator_call_def init_fields apply_retain_grad_hook_def
        ApplyReduceHooks_def RegisterReduceHook_def raising_hook_def)
  show ?thesis using s t h by (intro conjI)
qed

subsection \<open>The leaf reference\<close>






lemma threes_plus_threes:
  "combine_partial (DenseTensor FLOAT32 [2, 2] [3, 3, 3, 3 :: int])
       (DenseTensor FLOAT32 [2, 2] [3, 3, 3, 3])
     = DenseTensor FLOAT32 [2, 2] [6, 6, 6, 6]"
  by code_simp

text \<open>
  A live reference matters: a continuing invocation adds the new value to the one
  stored in the leaf's slot, a fresh one replaces it.
\<close>

lemma live_leaf_reference_is_updated:
  "snd (snd (operator_call_leaf
       ((GradNodeAccumulation_init (Some \<lparr>leaf_grad = 5\<rparr>) 0 []
          :: (int, int event list) GradNodeAccumulation))
       [[DenseTensor FLOAT32 [2, 2] [1, 1, 1, 1], DenseTensor FLOAT32 [2, 2] [2, 2, 2, 2]]]
       False False [] ((\<lambda>a. EmptyTensor)(5 := DenseTensor FLOAT32 [2, 2] [3, 3, 3, 3])))) 5
     = DenseTensor FLOAT32 [2, 2] [6, 6, 6, 6]
   \<and> snd (snd (operator_call_leaf
       ((GradNodeAccumulation_init (Some \<lparr>leaf_grad = 5\<rparr>) 0 []
          :: (int, int event list) GradNodeAccumulation))
       [[DenseTensor FLOAT32 [2, 2] [1, 1, 1, 1], DenseTensor FLOAT32 [2, 2] [2, 2, 2, 2]]]
       False True [] ((\<lambda>a. EmptyTensor)(5 := DenseTensor FLOAT32 [2, 2] [3, 3, 3, 3])))) 5
     = DenseTensor FLOAT32 [2, 2] [3, 3, 3, 3]"
  by (simp add: operator_call_leaf_def operator_call_def ones_plus_twos init_fields
      apply_retain_grad_hook_def ApplyReduceHooks_def update_leaf_grad_def threes_plus_threes
      del: accumulate.simps combine_partial.simps)



end
